theory Spec2Isabelle
  imports Main "HOL-Library.Word" "HOL-Library.Signed_Division"
begin

unbundle bit_operations_syntax

section \<open>Time values\<close>

text \<open>
  \<^verbatim>\<open>struct timeval\<close> and \<^verbatim>\<open>struct timespec\<close> of the C library. Both structs call
  their first field \<^verbatim>\<open>tv_sec\<close>; the one of \<^verbatim>\<open>timespec\<close> is \<open>ts_sec\<close> here. The
  fields (\<^verbatim>\<open>time_t\<close>, \<^verbatim>\<open>suseconds_t\<close>, \<^verbatim>\<open>long\<close>) are unbounded integers: the
  arithmetic of \<^verbatim>\<open>io.c\<close> adds at most 4294967 seconds and 999000000 nanoseconds to a
  clock reading.
\<close>

record timeval =
  tv_sec :: int
  tv_usec :: int

record timespec =
  ts_sec :: int
  tv_nsec :: int

text \<open>The macros of \<^verbatim>\<open>sys/time.h\<close> that \<^verbatim>\<open>io.c\<close> uses, as glibc defines them.\<close>

definition timerisset :: "timeval \<Rightarrow> bool" where
  "timerisset tvp = (tv_sec tvp \<noteq> 0 \<or> tv_usec tvp \<noteq> 0)"

definition timerclear :: "timeval" where
  "timerclear = \<lparr>tv_sec = 0, tv_usec = 0\<rparr>"

definition TIMESPEC_TO_TIMEVAL :: "timespec \<Rightarrow> timeval" where
  "TIMESPEC_TO_TIMEVAL ts = \<lparr>tv_sec = ts_sec ts, tv_usec = tv_nsec ts sdiv 1000\<rparr>"

definition timercmp_lt :: "timeval \<Rightarrow> timeval \<Rightarrow> bool" where
  \<comment> \<open>\<^verbatim>\<open>timercmp(a, b, <)\<close>\<close>
  "timercmp_lt a b =
     (if tv_sec a = tv_sec b then tv_usec a < tv_usec b else tv_sec a < tv_sec b)"

definition timercmp_ge :: "timeval \<Rightarrow> timeval \<Rightarrow> bool" where
  \<comment> \<open>\<^verbatim>\<open>timercmp(a, b, >=)\<close>\<close>
  "timercmp_ge a b =
     (if tv_sec a = tv_sec b then tv_usec a \<ge> tv_usec b else tv_sec a \<ge> tv_sec b)"

definition timersub :: "timeval \<Rightarrow> timeval \<Rightarrow> timeval" where
  "timersub a b =
     (let res = \<lparr>tv_sec = tv_sec a - tv_sec b, tv_usec = tv_usec a - tv_usec b\<rparr>
      in if tv_usec res < 0
         then \<lparr>tv_sec = tv_sec res - 1, tv_usec = tv_usec res + 1000000\<rparr>
         else res)"

text \<open>
  The comparison that \<^verbatim>\<open>add_to_flying_list\<close> and \<^verbatim>\<open>handle_timeouts\<close> write out
  field by field: \<^verbatim>\<open>cur_tv->tv_sec > tv->tv_sec || (cur_tv->tv_sec == tv->tv_sec &&
  cur_tv->tv_usec > tv->tv_usec)\<close>.
\<close>

definition tv_after :: "timeval \<Rightarrow> timeval \<Rightarrow> bool" where
  "tv_after cur_tv tv =
     (tv_sec cur_tv > tv_sec tv \<or> (tv_sec cur_tv = tv_sec tv \<and> tv_usec cur_tv > tv_usec tv))"

section \<open>Transfers\<close>

text \<open>
  \<^verbatim>\<open>struct usbi_transfer\<close> with its public part \<^verbatim>\<open>pub\<close> (\<^verbatim>\<open>struct libusb_transfer\<close>)
  flattened into one record. The fields of \<^verbatim>\<open>pub\<close> whose names clash with a private
  field or with a list function carry the prefix \<open>pub_\<close>: \<open>pub_flags\<close> is
  \<^verbatim>\<open>pub.flags\<close>, \<open>pub_timeout\<close> is \<^verbatim>\<open>pub.timeout\<close> (milliseconds, \<^verbatim>\<open>unsigned int\<close>),
  \<open>pub_length\<close> is \<^verbatim>\<open>pub.length\<close>. \<open>callback\<close> says whether \<^verbatim>\<open>pub.callback\<close> is
  non-NULL. \<open>timeout\<close> is the private absolute deadline, \<open>flags\<close> the private flags.

  The headers that give the flag bits are not among the sources. A flag word is the
  set of the flags whose bit is set: \<^verbatim>\<open>f & X\<close> is \<open>X \<in> f\<close>, \<^verbatim>\<open>f |= X\<close> is
  \<open>insert X f\<close>, \<^verbatim>\<open>f &= ~X\<close> is \<open>f - {X}\<close>.
\<close>

datatype libusb_endpoint_type =
    LIBUSB_ENDPOINT_TYPE_CONTROL
  | LIBUSB_ENDPOINT_TYPE_ISOCHRONOUS
  | LIBUSB_ENDPOINT_TYPE_BULK
  | LIBUSB_ENDPOINT_TYPE_INTERRUPT

datatype libusb_transfer_status =
    LIBUSB_TRANSFER_SILENT_COMPLETION
  | LIBUSB_TRANSFER_COMPLETED
  | LIBUSB_TRANSFER_ERROR
  | LIBUSB_TRANSFER_TIMED_OUT
  | LIBUSB_TRANSFER_CANCELLED
  | LIBUSB_TRANSFER_STALL
  | LIBUSB_TRANSFER_NO_DEVICE
  | LIBUSB_TRANSFER_OVERFLOW

datatype libusb_transfer_flag =
    LIBUSB_TRANSFER_SHORT_NOT_OK
  | LIBUSB_TRANSFER_FREE_BUFFER
  | LIBUSB_TRANSFER_FREE_TRANSFER

datatype usbi_transfer_flag =
    USBI_TRANSFER_SYNC_CANCELLED
  | USBI_TRANSFER_TIMED_OUT

record usbi_transfer =
  endpoint_type :: libusb_endpoint_type
  pub_flags :: "libusb_transfer_flag set"
  pub_timeout :: "32 word"
  pub_length :: int
  status :: libusb_transfer_status
  actual_length :: int
  callback :: bool
  timeout :: timeval
  flags :: "usbi_transfer_flag set"
  transferred :: int

text \<open>
  \<^verbatim>\<open>calculate_timeout\<close>. The first argument is what \<^verbatim>\<open>clock_gettime(CLOCK_MONOTONIC,
  &current_time)\<close> gives when it is called: its return value and the time it stores.
  The result is the return value and the transfer as the function leaves it.
\<close>

definition calculate_timeout :: "int \<times> timespec \<Rightarrow> usbi_transfer \<Rightarrow> int \<times> usbi_transfer" where
  "calculate_timeout clock transfer =
     (let tmo = pub_timeout transfer in
      if tmo = 0 then (0, transfer)
      else
        let r = fst clock; current_time = snd clock in
        if r < 0 then (r, transfer)
        else
          let current_time = current_time
                \<lparr>ts_sec := ts_sec current_time + uint (tmo div 1000),
                 tv_nsec := tv_nsec current_time + uint ((tmo mod 1000) * 1000000)\<rparr>;
              current_time =
                (if tv_nsec current_time > 1000000000
                 then current_time
                   \<lparr>tv_nsec := tv_nsec current_time - 1000000000,
                    ts_sec := ts_sec current_time + 1\<rparr>
                 else current_time)
          in (0, transfer\<lparr>timeout := TIMESPEC_TO_TIMEVAL current_time\<rparr>))"

section \<open>The state of the transfer engine\<close>

text \<open>
  A transfer is referred to by its address. \<open>transfers\<close> is the memory that holds the
  transfer objects, \<open>flying_transfers\<close> the intrusive list of the same name, from its
  head, and \<open>pollfds\<close> the list of poll descriptors (descriptor and requested events).
  What the engine does to the outside is recorded in \<open>trace\<close>, oldest first: the calls
  into the backend, the calls of \<^verbatim>\<open>select\<close>, the user callbacks (with the status and
  the actual length the callback finds in the transfer) and the calls of \<^verbatim>\<open>free\<close>.
  A user callback is opaque: the model records it and lets it change nothing.
\<close>

type_synonym addr = nat

datatype event =
    Backend_submit_transfer addr
  | Backend_cancel_transfer addr
  | Backend_handle_events "int set option" "int set option"
  | Select int "int set option" "int set option" timeval
  | User_callback addr libusb_transfer_status int
  | Free_buffer addr
  | Free_transfer addr

record io_state =
  transfers :: "addr \<Rightarrow> usbi_transfer"
  flying_transfers :: "addr list"
  pollfds :: "(int \<times> 16 word) list"
  trace :: "event list"

definition emit :: "event \<Rightarrow> io_state \<Rightarrow> io_state" where
  "emit e st = st\<lparr>trace := trace st @ [e]\<rparr>"

definition update_transfer :: "addr \<Rightarrow> (usbi_transfer \<Rightarrow> usbi_transfer) \<Rightarrow> io_state \<Rightarrow> io_state" where
  "update_transfer a f st = st\<lparr>transfers := (transfers st)(a := f (transfers st a))\<rparr>"

text \<open>\<^verbatim>\<open>usbi_io_init\<close>: both lists empty. The memory is whatever it is.\<close>

definition usbi_io_init :: "io_state \<Rightarrow> io_state" where
  "usbi_io_init st = st\<lparr>flying_transfers := [], pollfds := []\<rparr>"

subsection \<open>Insertion into the list of in-flight transfers\<close>

text \<open>
  The list macros of \<^verbatim>\<open>libusbi.h\<close> are the Linux ones: \<^verbatim>\<open>list_add(e, head)\<close> links
  \<open>e\<close> right after the head (at the front), \<^verbatim>\<open>list_add_tail(e, head)\<close> right before the
  head (at the end), \<^verbatim>\<open>list_add_tail(e, &cur->list)\<close> right before \<open>cur\<close>, and
  \<^verbatim>\<open>list_del\<close> unlinks an entry.

  \<open>flying_insert\<close> is the \<^verbatim>\<open>list_for_each_entry\<close> loop of \<^verbatim>\<open>add_to_flying_list\<close> with
  the append that follows it.
\<close>

fun flying_insert :: "(addr \<Rightarrow> usbi_transfer) \<Rightarrow> timeval \<Rightarrow> addr \<Rightarrow> addr list \<Rightarrow> addr list" where
  "flying_insert mem tmo a [] = [a]"
| "flying_insert mem tmo a (cur # rest) =
     (let cur_tv = timeout (mem cur) in
      if \<not> timerisset cur_tv \<or> tv_sec cur_tv > tv_sec tmo \<or>
         (tv_sec cur_tv = tv_sec tmo \<and> tv_usec cur_tv > tv_usec tmo)
      then a # cur # rest
      else cur # flying_insert mem tmo a rest)"

definition add_to_flying_list :: "addr \<Rightarrow> io_state \<Rightarrow> io_state" where
  "add_to_flying_list a st =
     (let tmo = timeout (transfers st a) in
      if flying_transfers st = [] then st\<lparr>flying_transfers := a # flying_transfers st\<rparr>
      else if \<not> timerisset tmo then st\<lparr>flying_transfers := flying_transfers st @ [a]\<rparr>
      else st\<lparr>flying_transfers := flying_insert (transfers st) tmo a (flying_transfers st)\<rparr>)"

text \<open>
  \<^verbatim>\<open>submit_transfer\<close> and \<^verbatim>\<open>libusb_submit_transfer\<close>. \<open>submit_ret\<close> is what the backend's
  \<^verbatim>\<open>submit_transfer\<close> returns. The byte swap of the control setup packet works on the
  user's buffer, which the model does not hold.
\<close>

definition submit_transfer :: "int \<Rightarrow> addr \<Rightarrow> io_state \<Rightarrow> int \<times> io_state" where
  "submit_transfer submit_ret a st =
     (let st = emit (Backend_submit_transfer a) st; r = submit_ret in
      if r < 0 then (r, st) else (0, add_to_flying_list a st))"

definition libusb_submit_transfer :: "int \<times> timespec \<Rightarrow> int \<Rightarrow> addr \<Rightarrow> io_state \<Rightarrow> int \<times> io_state" where
  "libusb_submit_transfer clock submit_ret a st =
     (let st = update_transfer a (\<lambda>t. t\<lparr>transferred := 0\<rparr>) st;
          (r, t) = calculate_timeout clock (transfers st a);
          st = update_transfer a (\<lambda>_. t) st
      in if r < 0 then (r, st) else submit_transfer submit_ret a st)"

subsection \<open>Completion and cancellation\<close>

text \<open>
  \<^verbatim>\<open>LIBUSB_CONTROL_SETUP_SIZE\<close> is \<^verbatim>\<open>sizeof(struct libusb_control_setup)\<close>.
  Modelled from the spec: the header \<^verbatim>\<open>libusb.h\<close> is not among the sources; the control
  setup is an 8-byte block in front of the data.
\<close>

definition LIBUSB_CONTROL_SETUP_SIZE :: int where
  "LIBUSB_CONTROL_SETUP_SIZE = 8"

definition libusb_free_transfer :: "addr \<Rightarrow> io_state \<Rightarrow> io_state" where
  "libusb_free_transfer a st =
     (let st = (if LIBUSB_TRANSFER_FREE_BUFFER \<in> pub_flags (transfers st a)
                then emit (Free_buffer a) st else st)
      in emit (Free_transfer a) st)"

definition usbi_handle_transfer_completion ::
    "addr \<Rightarrow> libusb_transfer_status \<Rightarrow> io_state \<Rightarrow> io_state" where
  "usbi_handle_transfer_completion a st_arg st =
     (let transfer = transfers st a in
      if st_arg = LIBUSB_TRANSFER_SILENT_COMPLETION then st
      else
        let st_arg =
              (if st_arg = LIBUSB_TRANSFER_COMPLETED \<and>
                  LIBUSB_TRANSFER_SHORT_NOT_OK \<in> pub_flags transfer
               then
                 let rqlen = pub_length transfer;
                     rqlen = (if endpoint_type transfer = LIBUSB_ENDPOINT_TYPE_CONTROL
                              then rqlen - LIBUSB_CONTROL_SETUP_SIZE else rqlen)
                 in if rqlen \<noteq> transferred transfer then LIBUSB_TRANSFER_ERROR else st_arg
               else st_arg);
            st = update_transfer a
                   (\<lambda>t. t\<lparr>status := st_arg, actual_length := transferred transfer\<rparr>) st;
            st = (if callback transfer
                  then emit (User_callback a st_arg (transferred transfer)) st else st)
        in if LIBUSB_TRANSFER_FREE_TRANSFER \<in> pub_flags transfer
           then libusb_free_transfer a st else st)"

definition usbi_handle_transfer_cancellation :: "addr \<Rightarrow> io_state \<Rightarrow> io_state" where
  "usbi_handle_transfer_cancellation a st =
     (if USBI_TRANSFER_SYNC_CANCELLED \<in> flags (transfers st a) then
        let st = update_transfer a (\<lambda>t. t\<lparr>flags := flags t - {USBI_TRANSFER_SYNC_CANCELLED}\<rparr>) st
        in usbi_handle_transfer_completion a LIBUSB_TRANSFER_SILENT_COMPLETION st
      else if USBI_TRANSFER_TIMED_OUT \<in> flags (transfers st a) then
        usbi_handle_transfer_completion a LIBUSB_TRANSFER_TIMED_OUT st
      else usbi_handle_transfer_completion a LIBUSB_TRANSFER_CANCELLED st)"

subsection \<open>Cancelling and sweeping timeouts\<close>

text \<open>
  \<open>cancel_ret\<close> gives, for a transfer, what the backend's \<^verbatim>\<open>cancel_transfer\<close> returns.
  The backend cancels asynchronously: the call changes nothing in the engine's state.
\<close>

definition libusb_cancel_transfer :: "(addr \<Rightarrow> int) \<Rightarrow> addr \<Rightarrow> io_state \<Rightarrow> int \<times> io_state" where
  "libusb_cancel_transfer cancel_ret a st =
     (let st = emit (Backend_cancel_transfer a) st; r = cancel_ret a in (r, st))"

definition handle_timeout :: "(addr \<Rightarrow> int) \<Rightarrow> addr \<Rightarrow> io_state \<Rightarrow> io_state" where
  "handle_timeout cancel_ret a st =
     (let st = update_transfer a (\<lambda>t. t\<lparr>flags := insert USBI_TRANSFER_TIMED_OUT (flags t)\<rparr>) st;
          (r, st) = libusb_cancel_transfer cancel_ret a st
      in st)"

text \<open>
  The \<^verbatim>\<open>list_for_each_entry\<close> loop of \<^verbatim>\<open>handle_timeouts\<close>, over the entries that are
  still ahead. Every way out of the loop returns 0, so the loop gives the state only.
\<close>

fun handle_timeouts_loop :: "(addr \<Rightarrow> int) \<Rightarrow> timeval \<Rightarrow> addr list \<Rightarrow> io_state \<Rightarrow> io_state" where
  "handle_timeouts_loop cancel_ret systime [] st = st"
| "handle_timeouts_loop cancel_ret systime (a # rest) st =
     (let cur_tv = timeout (transfers st a) in
      if \<not> timerisset cur_tv then st
      else if USBI_TRANSFER_TIMED_OUT \<in> flags (transfers st a)
      then handle_timeouts_loop cancel_ret systime rest st
      else if tv_sec cur_tv > tv_sec systime \<or>
              (tv_sec cur_tv = tv_sec systime \<and> tv_usec cur_tv > tv_usec systime)
      then st
      else handle_timeouts_loop cancel_ret systime rest (handle_timeout cancel_ret a st))"

definition handle_timeouts :: "int \<times> timespec \<Rightarrow> (addr \<Rightarrow> int) \<Rightarrow> io_state \<Rightarrow> int \<times> io_state" where
  "handle_timeouts clock cancel_ret st =
     (if flying_transfers st = [] then (0, st)
      else
        let r = fst clock; systime_ts = snd clock in
        if r < 0 then (r, st)
        else
          let systime = TIMESPEC_TO_TIMEVAL systime_ts
          in (0, handle_timeouts_loop cancel_ret systime (flying_transfers st) st))"

subsection \<open>The next timeout\<close>

text \<open>
  \<^verbatim>\<open>libusb_get_next_timeout\<close>. \<open>tv\<close> is what the caller's \<^verbatim>\<open>struct timeval\<close> holds
  before the call; the result is the return value and what it holds after.
\<close>

definition libusb_get_next_timeout :: "int \<times> timespec \<Rightarrow> timeval \<Rightarrow> io_state \<Rightarrow> int \<times> timeval" where
  "libusb_get_next_timeout clock tv st =
     (if flying_transfers st = [] then (0, tv)
      else
        case List.find (\<lambda>a. USBI_TRANSFER_TIMED_OUT \<notin> flags (transfers st a))
               (flying_transfers st) of
          None \<Rightarrow> (0, tv)
        | Some a \<Rightarrow>
            let next_timeout = timeout (transfers st a) in
            if \<not> timerisset next_timeout then (0, tv)
            else
              let r = fst clock; cur_ts = snd clock in
              if r < 0 then (r, tv)
              else
                let cur_tv = TIMESPEC_TO_TIMEVAL cur_ts in
                if timercmp_ge cur_tv next_timeout then (1, timerclear)
                else (1, timersub next_timeout cur_tv))"

subsection \<open>The backend's event handler\<close>

text \<open>
  Modelled from the spec: the backend (\<^verbatim>\<open>linux_usbfs.c\<close>) is not among the sources. Its
  \<^verbatim>\<open>handle_events\<close> reports terminal outcomes of in-flight transfers to the engine: for
  each it delinks the transfer from the scheduler (``Removal: O(1) delink on completion
  or cancellation''), and calls \<^verbatim>\<open>usbi_handle_transfer_completion\<close> with a status, the
  bytes transferred stored in the transfer, or \<^verbatim>\<open>usbi_handle_transfer_cancellation\<close>.
\<close>

datatype backend_report =
    Report_completion addr libusb_transfer_status int
  | Report_cancellation addr

definition list_del :: "addr \<Rightarrow> io_state \<Rightarrow> io_state" where
  "list_del a st = st\<lparr>flying_transfers := remove1 a (flying_transfers st)\<rparr>"

fun backend_reap :: "backend_report \<Rightarrow> io_state \<Rightarrow> io_state" where
  "backend_reap (Report_completion a st_arg n) st =
     usbi_handle_transfer_completion a st_arg
       (update_transfer a (\<lambda>t. t\<lparr>transferred := n\<rparr>) (list_del a st))"
| "backend_reap (Report_cancellation a) st =
     usbi_handle_transfer_cancellation a (list_del a st)"

subsection \<open>One iteration of the event loop\<close>

text \<open>
  What the outside does during one call of \<^verbatim>\<open>poll_io\<close>: the two clock readings (in
  \<^verbatim>\<open>libusb_get_next_timeout\<close> and in \<^verbatim>\<open>handle_timeouts\<close>), the indeterminate content
  of the local variable \<^verbatim>\<open>timeout\<close>, the return value of \<^verbatim>\<open>select\<close>, whether it left
  \<^verbatim>\<open>errno\<close> at \<^verbatim>\<open>EINTR\<close>, the remaining time it wrote back, the outcomes the backend
  reports from \<^verbatim>\<open>handle_events\<close> with its return value, and the return values of the
  backend's \<^verbatim>\<open>cancel_transfer\<close>.
\<close>

record poll_env =
  next_clock :: "int \<times> timespec"
  stack_timeout :: timeval
  select_ret :: int
  select_eintr :: bool
  select_left :: timeval
  reports :: "backend_report list"
  handle_events_ret :: int
  sweep_clock :: "int \<times> timespec"
  cancel_ret :: "addr \<Rightarrow> int"

text \<open>\<^verbatim>\<open>POLLIN\<close> and \<^verbatim>\<open>POLLOUT\<close> of \<^verbatim>\<open>poll.h\<close> on Linux.\<close>

definition POLLIN :: "16 word" where
  "POLLIN = 1"

definition POLLOUT :: "16 word" where
  "POLLOUT = 4"

definition backend_handle_events ::
    "poll_env \<Rightarrow> int set option \<Rightarrow> int set option \<Rightarrow> io_state \<Rightarrow> int \<times> io_state" where
  "backend_handle_events env rfds wfds st =
     (let st = emit (Backend_handle_events rfds wfds) st
      in (handle_events_ret env, fold backend_reap (reports env) st))"

definition poll_io :: "timeval \<Rightarrow> poll_env \<Rightarrow> io_state \<Rightarrow> int \<times> timeval \<times> io_state" where
  "poll_io tv env st =
     (let (r, tmo) = libusb_get_next_timeout (next_clock env) (stack_timeout env) st in
      if r \<noteq> 0 \<and> \<not> timerisset tmo then
        (let (r, st) = handle_timeouts (sweep_clock env) (cancel_ret env) st in (r, tv, st))
      else
        let select_timeout = (if r \<noteq> 0 then (if timercmp_lt tmo tv then tmo else tv) else tv);
            rd = filter (\<lambda>(fd, events). events AND POLLIN \<noteq> 0) (pollfds st);
            wr = filter (\<lambda>(fd, events). events AND POLLOUT \<noteq> 0) (pollfds st);
            maxfd = fold (\<lambda>(fd, events) m. if fd > m then fd else m) (pollfds st) 0;
            readfds = (if rd \<noteq> [] then Some (set (map fst rd)) else None);
            writefds = (if wr \<noteq> [] then Some (set (map fst wr)) else None);
            st = emit (Select (maxfd + 1) readfds writefds select_timeout) st;
            r = select_ret env;
            select_timeout = select_left env
        in if r = 0 then
             (let (r, st) = handle_timeouts (sweep_clock env) (cancel_ret env) st
              in (r, select_timeout, st))
           else if r = - 1 \<and> select_eintr env then (0, tv, st)
           else if r < 0 then (r, tv, st)
           else
             let (r, st) = backend_handle_events env readfds writefds st in
             if r < 0 then (r, tv, st)
             else
               (let (r, st) = handle_timeouts (sweep_clock env) (cancel_ret env) st
                in (r, tv, st)))"

definition libusb_poll_timeout :: "timeval \<Rightarrow> poll_env \<Rightarrow> io_state \<Rightarrow> int \<times> timeval \<times> io_state" where
  "libusb_poll_timeout tv env st = poll_io tv env st"

definition libusb_poll :: "poll_env \<Rightarrow> io_state \<Rightarrow> int \<times> io_state" where
  "libusb_poll env st =
     (let (r, tv, st) = poll_io \<lparr>tv_sec = 2, tv_usec = 0\<rparr> env st in (r, st))"

subsection \<open>Synchronous cancellation\<close>

text \<open>
  The \<^verbatim>\<open>while\<close> loop of \<^verbatim>\<open>libusb_cancel_transfer_sync\<close> runs as long as the flag is
  set, and nothing bounds it. The list gives what the outside does during each call of
  \<^verbatim>\<open>libusb_poll\<close>, in order. The result is the return value and the state reached;
  the return value \<open>None\<close> says that the loop is still running when the list is used
  up.
\<close>

fun sync_cancel_loop :: "addr \<Rightarrow> poll_env list \<Rightarrow> io_state \<Rightarrow> int option \<times> io_state" where
  "sync_cancel_loop a [] st =
     (if USBI_TRANSFER_SYNC_CANCELLED \<in> flags (transfers st a) then (None, st)
      else (Some 0, st))"
| "sync_cancel_loop a (env # envs) st =
     (if USBI_TRANSFER_SYNC_CANCELLED \<in> flags (transfers st a) then
        (let (r, st) = libusb_poll env st in
         if r < 0 then (Some r, st) else sync_cancel_loop a envs st)
      else (Some 0, st))"

definition libusb_cancel_transfer_sync ::
    "(addr \<Rightarrow> int) \<Rightarrow> poll_env list \<Rightarrow> addr \<Rightarrow> io_state \<Rightarrow> int option \<times> io_state" where
  "libusb_cancel_transfer_sync cancel_rc envs a st =
     (let st = emit (Backend_cancel_transfer a) st; r = cancel_rc a in
      if r < 0 then (Some r, st)
      else
        let st = update_transfer a
                   (\<lambda>t. t\<lparr>flags := insert USBI_TRANSFER_SYNC_CANCELLED (flags t)\<rparr>) st
        in sync_cancel_loop a envs st)"

section \<open>Devices and their reference counts\<close>

text \<open>
  \<^verbatim>\<open>struct libusb_device\<close> with the fields that \<^verbatim>\<open>usbi_alloc_device\<close> sets. \<open>devices\<close>
  is the memory that holds the live device objects by address (\<^verbatim>\<open>free\<close> removes the
  entry), \<open>usb_devs\<close> the list of the same name from its head, and \<open>destroyed\<close> the
  devices the backend's \<^verbatim>\<open>destroy_device\<close> was called with, oldest first. The mutexes
  are left out: the model runs one call at a time.

  Using a pointer to storage that is not live is undefined in C; the model returns
  \<open>Dangling_pointer\<close>. A shift of an \<^verbatim>\<open>int\<close> by its width or more is undefined as well
  (\<open>Undefined_shift\<close>), and so is an \<^verbatim>\<open>int\<close> addition or subtraction whose result is
  not an \<^verbatim>\<open>int\<close> (\<open>Signed_overflow\<close>).

  The reference count is an \<^verbatim>\<open>int\<close> (\<^verbatim>\<open>libusb_unref_device\<close> copies it into one): a
  32-bit word read as signed, between \<^verbatim>\<open>INT_MIN\<close> and \<^verbatim>\<open>INT_MAX\<close>.
\<close>

datatype fault = Dangling_pointer | Undefined_shift | Signed_overflow

definition INT_MAX :: "32 word" where
  "INT_MAX = 0x7FFFFFFF"

definition INT_MIN :: "32 word" where
  "INT_MIN = 0x80000000"

record libusb_device =
  refcnt :: "32 word"
  session_data :: nat

record core_state =
  devices :: "addr \<rightharpoonup> libusb_device"
  usb_devs :: "addr list"
  destroyed :: "addr list"


text \<open>
  \<^verbatim>\<open>libusb_ref_device\<close>: \<^verbatim>\<open>dev->refcnt++\<close>, which overflows when the count is
  \<^verbatim>\<open>INT_MAX\<close>.
\<close>

definition libusb_ref_device :: "addr \<Rightarrow> core_state \<Rightarrow> fault + core_state" where
  "libusb_ref_device dev st =
     (case devices st dev of
        None \<Rightarrow> Inl Dangling_pointer
      | Some d \<Rightarrow>
          if refcnt d = INT_MAX then Inl Signed_overflow
          else Inr (st\<lparr>devices := (devices st)(dev \<mapsto> d\<lparr>refcnt := refcnt d + 1\<rparr>)\<rparr>))"





section \<open>Device handles and claimed interfaces\<close>

text \<open>
  \<^verbatim>\<open>struct libusb_device_handle\<close>, of which the interface functions use the bitmap
  \<^verbatim>\<open>claimed_interfaces\<close> only. Its declaration (\<^verbatim>\<open>libusbi.h\<close>) is not among the
  sources, and the functions take its width from \<^verbatim>\<open>sizeof\<close>: the width is the
  parameter \<open>'w\<close>, the width of \<^verbatim>\<open>unsigned long\<close> and of \<^verbatim>\<open>size_t\<close> (32 or 64 on
  Linux). \<^verbatim>\<open>interface_number\<close> is an \<^verbatim>\<open>int\<close>, a 32-bit word read as signed.

  Modelled from the spec: the error codes are declared in \<^verbatim>\<open>libusb.h\<close>, which is not
  among the sources either; they are negative and differ from each other (the values
  are those of the libusb header).
\<close>

record (overloaded) 'w libusb_device_handle =
  claimed_interfaces :: "'w word"

definition LIBUSB_ERROR_INVALID_PARAM :: int where
  "LIBUSB_ERROR_INVALID_PARAM = - 2"

definition LIBUSB_ERROR_NOT_FOUND :: int where
  "LIBUSB_ERROR_NOT_FOUND = - 5"

datatype backend_call =
    Backend_claim_interface "32 word"
  | Backend_release_interface "32 word"
  | Backend_set_interface_altsetting "32 word" "32 word"

text \<open>
  \<^verbatim>\<open>interface_number >= sizeof(dev->claimed_interfaces) * 8\<close>: the comparison is made
  in \<^verbatim>\<open>size_t\<close>, to which the \<^verbatim>\<open>int\<close> is converted (the value modulo \<open>2 ^ w\<close>, which
  is what \<open>scast\<close> gives).
\<close>

definition interface_beyond_bitmap :: "'w::len libusb_device_handle \<Rightarrow> 32 word \<Rightarrow> bool" where
  "interface_beyond_bitmap dev interface_number =
     ((scast interface_number :: 'w word) \<ge> word_of_nat (LENGTH('w) div 8) * 8)"

text \<open>
  \<^verbatim>\<open>1 << interface_number\<close>: both operands are \<^verbatim>\<open>int\<close>, so the shift is made in 32 bits.
  A shift count that is negative or at least 32 is undefined. A count of 31 moves the
  1 into the sign bit, which GCC defines (the result is \<^verbatim>\<open>INT_MIN\<close>).
\<close>

definition int_shl_1 :: "32 word \<Rightarrow> fault + 32 word" where
  "int_shl_1 n =
     (if 0 \<le> sint n \<and> sint n < 32 then Inr (push_bit (nat (sint n)) 1)
      else Inl Undefined_shift)"

text \<open>
  The functions return the fault, or the return value with the handle as they leave it
  and the calls they made into the backend. \<open>backend_ret\<close> is what the backend returns
  when it is called. The \<^verbatim>\<open>int\<close> mask is converted to the type of the bitmap by sign
  extension (\<open>scast\<close>).
\<close>

definition libusb_claim_interface ::
    "int \<Rightarrow> 'w::len libusb_device_handle \<Rightarrow> 32 word
       \<Rightarrow> fault + (int \<times> 'w libusb_device_handle \<times> backend_call list)" where
  "libusb_claim_interface backend_ret dev interface_number =
     (if interface_beyond_bitmap dev interface_number
      then Inr (LIBUSB_ERROR_INVALID_PARAM, dev, [])
      else
        case int_shl_1 interface_number of
          Inl f \<Rightarrow> Inl f
        | Inr m \<Rightarrow>
            if claimed_interfaces dev AND scast m \<noteq> 0 then Inr (0, dev, [])
            else
              let r = backend_ret in
              if r = 0
              then Inr (r, dev\<lparr>claimed_interfaces := claimed_interfaces dev OR scast m\<rparr>,
                        [Backend_claim_interface interface_number])
              else Inr (r, dev, [Backend_claim_interface interface_number]))"

definition libusb_release_interface ::
    "int \<Rightarrow> 'w::len libusb_device_handle \<Rightarrow> 32 word
       \<Rightarrow> fault + (int \<times> 'w libusb_device_handle \<times> backend_call list)" where
  "libusb_release_interface backend_ret dev interface_number =
     (if interface_beyond_bitmap dev interface_number
      then Inr (LIBUSB_ERROR_INVALID_PARAM, dev, [])
      else
        case int_shl_1 interface_number of
          Inl f \<Rightarrow> Inl f
        | Inr m \<Rightarrow>
            if \<not> (claimed_interfaces dev AND scast m \<noteq> 0)
            then Inr (LIBUSB_ERROR_NOT_FOUND, dev, [])
            else
              let r = backend_ret in
              if r = 0
              then Inr (r, dev\<lparr>claimed_interfaces := claimed_interfaces dev AND scast (NOT m)\<rparr>,
                        [Backend_release_interface interface_number])
              else Inr (r, dev, [Backend_release_interface interface_number]))"

definition libusb_set_interface_alt_setting ::
    "int \<Rightarrow> 'w::len libusb_device_handle \<Rightarrow> 32 word \<Rightarrow> 32 word
       \<Rightarrow> fault + (int \<times> 'w libusb_device_handle \<times> backend_call list)" where
  "libusb_set_interface_alt_setting backend_ret dev interface_number alternate_setting =
     (if interface_beyond_bitmap dev interface_number
      then Inr (LIBUSB_ERROR_INVALID_PARAM, dev, [])
      else
        case int_shl_1 interface_number of
          Inl f \<Rightarrow> Inl f
        | Inr m \<Rightarrow>
            if \<not> (claimed_interfaces dev AND scast m \<noteq> 0)
            then Inr (LIBUSB_ERROR_NOT_FOUND, dev, [])
            else Inr (backend_ret, dev,
                      [Backend_set_interface_altsetting interface_number alternate_setting]))"

section \<open>Notions used in the statements\<close>

text \<open>
  The events a completion adds to the trace after it has stored status and length: the
  user callback, if the transfer has one, and the calls of \<^verbatim>\<open>free\<close> of
  \<^verbatim>\<open>libusb_free_transfer\<close>, if the transfer carries \<^verbatim>\<open>LIBUSB_TRANSFER_FREE_TRANSFER\<close>.
\<close>

definition callback_events :: "addr \<Rightarrow> usbi_transfer \<Rightarrow> libusb_transfer_status \<Rightarrow> event list" where
  "callback_events a t s = (if callback t then [User_callback a s (transferred t)] else [])"

definition release_events :: "addr \<Rightarrow> usbi_transfer \<Rightarrow> event list" where
  "release_events a t =
     (if LIBUSB_TRANSFER_FREE_TRANSFER \<in> pub_flags t
      then (if LIBUSB_TRANSFER_FREE_BUFFER \<in> pub_flags t then [Free_buffer a] else []) @
           [Free_transfer a]
      else [])"

text \<open>A bulk transfer with a callback, no flags, no timeout and no deadline, and a
  state whose memory holds it at every address, with nothing in flight.\<close>

definition example_transfer :: usbi_transfer where
  "example_transfer =
     \<lparr>endpoint_type = LIBUSB_ENDPOINT_TYPE_BULK, pub_flags = {}, pub_timeout = 0,
      pub_length = 0, status = LIBUSB_TRANSFER_COMPLETED, actual_length = 0,
      callback = True, timeout = timerclear, flags = {}, transferred = 0\<rparr>"

definition example_state :: io_state where
  "example_state =
     \<lparr>transfers = (\<lambda>_. example_transfer), flying_transfers = [], pollfds = [], trace = []\<rparr>"

subsection \<open>The order of the scheduler\<close>

text \<open>
  \<open>scheduler_ordered\<close>: read from the head, the deadlines that are set never decrease
  (no earlier one is after a later one, in the comparison the code uses), and the list
  is its set deadlines followed by its unset ones.
\<close>

definition deadline_of :: "io_state \<Rightarrow> addr \<Rightarrow> timeval" where
  "deadline_of st a = timeout (transfers st a)"

definition scheduler_ordered :: "io_state \<Rightarrow> bool" where
  "scheduler_ordered st =
     (let ds = map (deadline_of st) (flying_transfers st) in
      sorted_wrt (\<lambda>d e. \<not> tv_after d e) (filter timerisset ds) \<and>
      ds = filter timerisset ds @ filter (\<lambda>d. \<not> timerisset d) ds)"

text \<open>The same order as one relation between an earlier and a later entry.\<close>

definition deadline_le :: "timeval \<Rightarrow> timeval \<Rightarrow> bool" where
  "deadline_le d e = (\<not> timerisset e \<or> (timerisset d \<and> \<not> tv_after d e))"

text \<open>
  A run of the scheduler. \<open>Submit a ms clock submit_ret\<close>: the user stores the timeout
  \<open>ms\<close> in a transfer that is not in flight and submits it (the clock reads \<open>clock\<close>,
  the backend returns \<open>submit_ret\<close>). \<open>Delink a\<close>: the backend unlinks a transfer that
  is in flight. Submitting a transfer that is in flight, or unlinking one that is not,
  corrupts the intrusive list; such a run has no result.
\<close>

datatype scheduler_op = Submit addr "32 word" "int \<times> timespec" int | Delink addr

fun scheduler_run :: "scheduler_op list \<Rightarrow> io_state \<Rightarrow> io_state option" where
  "scheduler_run [] st = Some st"
| "scheduler_run (Submit a ms clock submit_ret # ops) st =
     (if a \<in> set (flying_transfers st) then None
      else scheduler_run ops
             (snd (libusb_submit_transfer clock submit_ret a
                (update_transfer a (\<lambda>t. t\<lparr>pub_timeout := ms\<rparr>) st))))"
| "scheduler_run (Delink a # ops) st =
     (if a \<in> set (flying_transfers st) then scheduler_run ops (list_del a st) else None)"

text \<open>
  The insertion as the spec words it: ``Walk from head; insert before the first element
  whose deadline is unset or strictly greater. If no such element, append.'' An unset
  deadline sorts after every set one, so nothing is strictly greater than it.
\<close>

definition later_or_unset :: "timeval \<Rightarrow> timeval \<Rightarrow> bool" where
  "later_or_unset tmo cur_tv = (\<not> timerisset cur_tv \<or> (timerisset tmo \<and> tv_after cur_tv tmo))"

definition insert_before_first_later :: "(addr \<Rightarrow> usbi_transfer) \<Rightarrow> addr \<Rightarrow> addr list \<Rightarrow> addr list" where
  "insert_before_first_later mem a xs =
     takeWhile (\<lambda>c. \<not> later_or_unset (timeout (mem a)) (timeout (mem c))) xs @
     a # dropWhile (\<lambda>c. \<not> later_or_unset (timeout (mem a)) (timeout (mem c))) xs"

text \<open>Scenario S5: T1 with 200 ms, T2 with no timeout, T3 with 50 ms, submitted in this
  order at 10.000, 10.001 and 10.002 seconds.\<close>

definition s5_ops :: "scheduler_op list" where
  "s5_ops =
     [Submit 1 200 (0, \<lparr>ts_sec = 10, tv_nsec = 0\<rparr>) 0,
      Submit 2 0 (0, \<lparr>ts_sec = 10, tv_nsec = 1000000\<rparr>) 0,
      Submit 3 50 (0, \<lparr>ts_sec = 10, tv_nsec = 2000000\<rparr>) 0]"

definition s5_final :: io_state where
  "s5_final =
     \<lparr>transfers = (\<lambda>_. example_transfer)
        (1 := example_transfer\<lparr>pub_timeout := 200, timeout := \<lparr>tv_sec = 10, tv_usec = 200000\<rparr>\<rparr>,
         2 := example_transfer,
         3 := example_transfer\<lparr>pub_timeout := 50, timeout := \<lparr>tv_sec = 10, tv_usec = 52000\<rparr>\<rparr>),
      flying_transfers = [3, 1, 2], pollfds = [],
      trace = [Backend_submit_transfer 1, Backend_submit_transfer 2, Backend_submit_transfer 3]\<rparr>"

subsection \<open>The timeout sweep\<close>

text \<open>
  A transfer is due at \<open>systime\<close> when its deadline is set and not after \<open>systime\<close>
  and it does not carry the latch \<^verbatim>\<open>USBI_TRANSFER_TIMED_OUT\<close> yet.
\<close>

definition timeout_due :: "timeval \<Rightarrow> usbi_transfer \<Rightarrow> bool" where
  "timeout_due systime t =
     (timerisset (timeout t) \<and> USBI_TRANSFER_TIMED_OUT \<notin> flags t \<and>
      \<not> tv_after (timeout t) systime)"

definition latch_timed_out :: "usbi_transfer \<Rightarrow> usbi_transfer" where
  "latch_timed_out t = t\<lparr>flags := insert USBI_TRANSFER_TIMED_OUT (flags t)\<rparr>"

text \<open>
  The sweep as the spec words it: ``walk the scheduler from head; stop at the first
  entry with an unset deadline or a deadline strictly after now; skip entries already
  latched TIMED_OUT; for each expired entry, set the TIMED_OUT latch and issue an
  asynchronous backend cancel.''
\<close>

fun sweep_timeouts :: "timeval \<Rightarrow> addr list \<Rightarrow> io_state \<Rightarrow> io_state" where
  "sweep_timeouts now [] st = st"
| "sweep_timeouts now (a # rest) st =
     (if \<not> timerisset (timeout (transfers st a)) \<or> tv_after (timeout (transfers st a)) now
      then st
      else if USBI_TRANSFER_TIMED_OUT \<in> flags (transfers st a)
      then sweep_timeouts now rest st
      else sweep_timeouts now rest
             (emit (Backend_cancel_transfer a) (update_transfer a latch_timed_out st)))"

text \<open>The state in which every due entry of a list has been handled and nothing else
  has changed.\<close>

definition latch_due :: "timeval \<Rightarrow> addr list \<Rightarrow> io_state \<Rightarrow> io_state" where
  "latch_due now xs st =
     st\<lparr>transfers :=
          (\<lambda>b. if b \<in> set xs \<and> timeout_due now (transfers st b)
               then latch_timed_out (transfers st b) else transfers st b),
        trace := trace st @
          map Backend_cancel_transfer (filter (\<lambda>b. timeout_due now (transfers st b)) xs)\<rparr>"

subsection \<open>One iteration of the event loop\<close>

text \<open>
  The nearest deadline of the scheduler, as the spec words the lookup: ``skip transfers
  already bearing the TIMED_OUT latch; the first remaining element's deadline (if set)
  is the nearest deadline; if unset or absent, there is no deadline.''
\<close>

definition nearest_deadline :: "io_state \<Rightarrow> timeval option" where
  "nearest_deadline st =
     (case List.find (\<lambda>a. USBI_TRANSFER_TIMED_OUT \<notin> flags (transfers st a))
             (flying_transfers st) of
        None \<Rightarrow> None
      | Some a \<Rightarrow>
          if timerisset (timeout (transfers st a)) then Some (timeout (transfers st a))
          else None)"

text \<open>The time that remains until a deadline, zero when the deadline has expired, and
  the smaller of two times.\<close>

definition time_remaining :: "timeval \<Rightarrow> timeval \<Rightarrow> timeval" where
  "time_remaining d now = (if timercmp_ge now d then timerclear else timersub d now)"

definition tv_min :: "timeval \<Rightarrow> timeval \<Rightarrow> timeval" where
  "tv_min a b = (if timercmp_lt a b then a else b)"

text \<open>The timeouts of the calls of \<^verbatim>\<open>select\<close> in a trace, and the call that \<^verbatim>\<open>poll_io\<close>
  makes in a state with a given timeout.\<close>

fun select_timeouts :: "event list \<Rightarrow> timeval list" where
  "select_timeouts [] = []"
| "select_timeouts (Select n r w t # es) = t # select_timeouts es"
| "select_timeouts (e # es) = select_timeouts es"

definition select_call :: "io_state \<Rightarrow> timeval \<Rightarrow> event" where
  "select_call st t =
     (let rd = filter (\<lambda>(fd, events). events AND POLLIN \<noteq> 0) (pollfds st);
          wr = filter (\<lambda>(fd, events). events AND POLLOUT \<noteq> 0) (pollfds st);
          maxfd = fold (\<lambda>(fd, events) m. if fd > m then fd else m) (pollfds st) 0
      in Select (maxfd + 1)
           (if rd \<noteq> [] then Some (set (map fst rd)) else None)
           (if wr \<noteq> [] then Some (set (map fst wr)) else None) t)"

text \<open>An environment in which every clock reading is 10.1 s, \<^verbatim>\<open>select\<close> times out
  and the backend accepts every cancel request.\<close>

definition example_env :: poll_env where
  "example_env =
     \<lparr>next_clock = (0, \<lparr>ts_sec = 10, tv_nsec = 100000000\<rparr>),
      stack_timeout = timerclear, select_ret = 0, select_eintr = False,
      select_left = timerclear, reports = [], handle_events_ret = 0,
      sweep_clock = (0, \<lparr>ts_sec = 10, tv_nsec = 100000000\<rparr>),
      cancel_ret = (\<lambda>_. 0)\<rparr>"

subsection \<open>Synchronous cancellation\<close>

text \<open>
  The transfer a report of the backend is about, the reports about a transfer in a
  list of environments, and the user callbacks for a transfer in a trace.
\<close>

fun report_addr :: "backend_report \<Rightarrow> addr" where
  "report_addr (Report_completion a s n) = a"
| "report_addr (Report_cancellation a) = a"

definition reports_about :: "addr \<Rightarrow> poll_env list \<Rightarrow> backend_report list" where
  "reports_about a envs = filter (\<lambda>r. report_addr r = a) (concat (map reports envs))"

fun is_callback_for :: "addr \<Rightarrow> event \<Rightarrow> bool" where
  "is_callback_for a (User_callback b s n) = (b = a)"
| "is_callback_for a e = False"

definition callbacks_for :: "addr \<Rightarrow> event list \<Rightarrow> event list" where
  "callbacks_for a tr = filter (is_callback_for a) tr"

text \<open>
  The state after a number of event loop iterations. An environment is benign when
  the clock can be read, \<^verbatim>\<open>select\<close> does not fail (but for an interrupted call) and
  the backend's event handler does not fail. An iteration reaches the backend's event
  handler when it does not leave for an expired deadline and \<^verbatim>\<open>select\<close> reports
  descriptors that are ready.
\<close>

definition run_polls :: "poll_env list \<Rightarrow> io_state \<Rightarrow> io_state" where
  "run_polls envs st = fold (\<lambda>env st. snd (libusb_poll env st)) envs st"

definition env_benign :: "poll_env \<Rightarrow> bool" where
  "env_benign env =
     (0 \<le> fst (next_clock env) \<and> 0 \<le> fst (sweep_clock env) \<and>
      (0 \<le> select_ret env \<or> select_ret env = - 1 \<and> select_eintr env) \<and>
      0 \<le> handle_events_ret env)"

text \<open>
  The parts of one iteration, for stating what \<^verbatim>\<open>libusb_poll\<close> does case by case:
  whether it leaves for an expired deadline, the timeout it gives to \<^verbatim>\<open>select\<close>, and
  the descriptor sets it builds.
\<close>

definition poll_expired :: "poll_env \<Rightarrow> io_state \<Rightarrow> bool" where
  "poll_expired env st =
     (let (r, tmo) = libusb_get_next_timeout (next_clock env) (stack_timeout env) st
      in r \<noteq> 0 \<and> \<not> timerisset tmo)"

definition poll_select_timeout :: "timeval \<Rightarrow> poll_env \<Rightarrow> io_state \<Rightarrow> timeval" where
  "poll_select_timeout tv env st =
     (let (r, tmo) = libusb_get_next_timeout (next_clock env) (stack_timeout env) st
      in if r \<noteq> 0 then (if timercmp_lt tmo tv then tmo else tv) else tv)"

definition poll_readfds :: "io_state \<Rightarrow> int set option" where
  "poll_readfds st =
     (let rd = filter (\<lambda>(fd, events). events AND POLLIN \<noteq> 0) (pollfds st)
      in if rd \<noteq> [] then Some (set (map fst rd)) else None)"

definition poll_writefds :: "io_state \<Rightarrow> int set option" where
  "poll_writefds st =
     (let wr = filter (\<lambda>(fd, events). events AND POLLOUT \<noteq> 0) (pollfds st)
      in if wr \<noteq> [] then Some (set (map fst wr)) else None)"

definition reaches_backend :: "poll_env \<Rightarrow> io_state \<Rightarrow> bool" where
  "reaches_backend env st = (\<not> poll_expired env st \<and> 0 < select_ret env)"

definition sync_cancelled :: "addr \<Rightarrow> io_state \<Rightarrow> io_state" where
  "sync_cancelled a st =
     update_transfer a (\<lambda>t. t\<lparr>flags := insert USBI_TRANSFER_SYNC_CANCELLED (flags t)\<rparr>)
       (emit (Backend_cancel_transfer a) st)"

text \<open>What matters of a state to the synchronous cancellation of a transfer: whether
  the transfer carries the flag, and the user callbacks made for it.\<close>

definition sync_view :: "addr \<Rightarrow> io_state \<Rightarrow> bool \<times> event list" where
  "sync_view a st =
     (USBI_TRANSFER_SYNC_CANCELLED \<in> flags (transfers st a), callbacks_for a (trace st))"

text \<open>
  Scenario S3: one transfer without timeout is in flight; in the next iteration of the
  event loop \<^verbatim>\<open>select\<close> reports a ready descriptor and the backend reports that the
  transfer was cancelled. In the racing variant the transfer has completed before the
  cancel request took effect, and the backend reports the completion.
\<close>

definition s3_state :: io_state where
  "s3_state = example_state\<lparr>flying_transfers := [1]\<rparr>"

definition s3_env :: poll_env where
  "s3_env = example_env\<lparr>select_ret := 1, reports := [Report_cancellation 1]\<rparr>"

definition race_env :: poll_env where
  "race_env =
     example_env\<lparr>select_ret := 1, reports := [Report_completion 1 LIBUSB_TRANSFER_COMPLETED 0]\<rparr>"

subsection \<open>The device registry\<close>




section \<open>Verified properties\<close>

subsection \<open>Helper facts about the state\<close>

lemma flying_update_transfer [simp]:
  "flying_transfers (update_transfer a f st) = flying_transfers st"
  by (simp add: update_transfer_def)

lemma flying_emit [simp]: "flying_transfers (emit e st) = flying_transfers st"
  by (simp add: emit_def)

lemma transfers_emit [simp]: "transfers (emit e st) = transfers st"
  by (simp add: emit_def)

lemma trace_update_transfer [simp]: "trace (update_transfer a f st) = trace st"
  by (simp add: update_transfer_def)

lemma trace_emit [simp]: "trace (emit e st) = trace st @ [e]"
  by (simp add: emit_def)

lemma transfers_update_transfer:
  "transfers (update_transfer a f st) b = (if b = a then f (transfers st a) else transfers st b)"
  by (simp add: update_transfer_def)

subsection \<open>The deadline computed at submission\<close>

text \<open>
  C9. The claim says that the deadline \<^verbatim>\<open>calculate_timeout\<close> computes is normalized:
  nanoseconds below 1000000000, microseconds below 1000000. The code folds the
  nanoseconds only when they are strictly above 1000000000. With a timeout of 500 ms
  and a clock at 10.5 s they are exactly 1000000000 and stay: the deadline is 10 s and
  1000000 microseconds, and the field-wise comparison puts it strictly before 11 s and
  0 microseconds, the same instant.
\<close>

theorem calculate_timeout_unnormalized:
  "calculate_timeout (0, \<lparr>ts_sec = 10, tv_nsec = 500000000\<rparr>)
       (example_transfer\<lparr>pub_timeout := 500\<rparr>) =
     (0, example_transfer\<lparr>pub_timeout := 500, timeout := \<lparr>tv_sec = 10, tv_usec = 1000000\<rparr>\<rparr>) \<and>
   tv_after \<lparr>tv_sec = 11, tv_usec = 0\<rparr> \<lparr>tv_sec = 10, tv_usec = 1000000\<rparr>"
  by (simp add: calculate_timeout_def example_transfer_def TIMESPEC_TO_TIMEVAL_def Let_def
      signed_divide_int_def tv_after_def)

subsection \<open>Completion of a transfer\<close>

lemma completion_delivers:
  assumes "s \<noteq> LIBUSB_TRANSFER_SILENT_COMPLETION"
    and "\<not> (s = LIBUSB_TRANSFER_COMPLETED \<and> LIBUSB_TRANSFER_SHORT_NOT_OK \<in> pub_flags (transfers st a))"
  shows "usbi_handle_transfer_completion a s st =
     st\<lparr>transfers := (transfers st)
            (a := (transfers st a)\<lparr>status := s, actual_length := transferred (transfers st a)\<rparr>),
        trace := trace st @ callback_events a (transfers st a) s @
                 release_events a (transfers st a)\<rparr>"
  using assms
  by (auto simp: usbi_handle_transfer_completion_def Let_def update_transfer_def emit_def
      libusb_free_transfer_def callback_events_def release_events_def)

lemma completion_silent:
  "usbi_handle_transfer_completion a LIBUSB_TRANSFER_SILENT_COMPLETION st = st"
  by (simp add: usbi_handle_transfer_completion_def)

text \<open>
  C4. A completion with status \<^verbatim>\<open>LIBUSB_TRANSFER_COMPLETED\<close> of a transfer that carries
  \<^verbatim>\<open>LIBUSB_TRANSFER_SHORT_NOT_OK\<close> and has transferred fewer bytes than requested (the
  length, less the 8 bytes of the setup packet for a control transfer) publishes the
  status \<^verbatim>\<open>LIBUSB_TRANSFER_ERROR\<close> and the bytes transferred as the actual length, and
  the user callback, if there is one, is called with them.
\<close>

theorem short_transfer_is_error:
  assumes "LIBUSB_TRANSFER_SHORT_NOT_OK \<in> pub_flags (transfers st a)"
    and "transferred (transfers st a) <
           pub_length (transfers st a) -
             (if endpoint_type (transfers st a) = LIBUSB_ENDPOINT_TYPE_CONTROL
              then LIBUSB_CONTROL_SETUP_SIZE else 0)"
    and "st' = usbi_handle_transfer_completion a LIBUSB_TRANSFER_COMPLETED st"
  shows "status (transfers st' a) = LIBUSB_TRANSFER_ERROR \<and>
         actual_length (transfers st' a) = transferred (transfers st a) \<and>
         trace st' = trace st @ callback_events a (transfers st a) LIBUSB_TRANSFER_ERROR @
                     release_events a (transfers st a)"
  using assms
  by (auto simp: usbi_handle_transfer_completion_def Let_def update_transfer_def emit_def
      libusb_free_transfer_def callback_events_def release_events_def)

theorem short_transfer_is_error_witness:
  "status (transfers (usbi_handle_transfer_completion 1 LIBUSB_TRANSFER_COMPLETED
      (update_transfer 1 (\<lambda>t. t\<lparr>pub_flags := {LIBUSB_TRANSFER_SHORT_NOT_OK},
          pub_length := 512, transferred := 200\<rparr>) example_state)) 1) = LIBUSB_TRANSFER_ERROR \<and>
   actual_length (transfers (usbi_handle_transfer_completion 1 LIBUSB_TRANSFER_COMPLETED
      (update_transfer 1 (\<lambda>t. t\<lparr>pub_flags := {LIBUSB_TRANSFER_SHORT_NOT_OK},
          pub_length := 512, transferred := 200\<rparr>) example_state)) 1) = 200 \<and>
   trace (usbi_handle_transfer_completion 1 LIBUSB_TRANSFER_COMPLETED
      (update_transfer 1 (\<lambda>t. t\<lparr>pub_flags := {LIBUSB_TRANSFER_SHORT_NOT_OK},
          pub_length := 512, transferred := 200\<rparr>) example_state)) =
     [User_callback 1 LIBUSB_TRANSFER_ERROR 200]"
  using short_transfer_is_error
    [of "update_transfer 1 (\<lambda>t. t\<lparr>pub_flags := {LIBUSB_TRANSFER_SHORT_NOT_OK},
          pub_length := 512, transferred := 200\<rparr>) example_state" 1, OF _ _ refl]
  by (simp add: update_transfer_def example_state_def example_transfer_def
      callback_events_def release_events_def)

subsection \<open>Completion of a cancellation\<close>

text \<open>
  C5. What a cancellation reported by the backend delivers is decided by the private
  flags, in this order. With \<^verbatim>\<open>USBI_TRANSFER_SYNC_CANCELLED\<close> set the flag is cleared and
  nothing else changes: no status is stored, no callback is called. Otherwise, with
  \<^verbatim>\<open>USBI_TRANSFER_TIMED_OUT\<close> set the status is \<^verbatim>\<open>LIBUSB_TRANSFER_TIMED_OUT\<close>, and
  otherwise \<^verbatim>\<open>LIBUSB_TRANSFER_CANCELLED\<close>; the user callback, if there is one, is called
  with it.
\<close>

theorem cancellation_outcome:
  "(USBI_TRANSFER_SYNC_CANCELLED \<in> flags (transfers st a) \<longrightarrow>
      usbi_handle_transfer_cancellation a st =
        update_transfer a (\<lambda>t. t\<lparr>flags := flags t - {USBI_TRANSFER_SYNC_CANCELLED}\<rparr>) st) \<and>
   (USBI_TRANSFER_SYNC_CANCELLED \<notin> flags (transfers st a) \<longrightarrow>
      status (transfers (usbi_handle_transfer_cancellation a st) a) =
        (if USBI_TRANSFER_TIMED_OUT \<in> flags (transfers st a)
         then LIBUSB_TRANSFER_TIMED_OUT else LIBUSB_TRANSFER_CANCELLED) \<and>
      trace (usbi_handle_transfer_cancellation a st) =
        trace st @
        callback_events a (transfers st a)
          (if USBI_TRANSFER_TIMED_OUT \<in> flags (transfers st a)
           then LIBUSB_TRANSFER_TIMED_OUT else LIBUSB_TRANSFER_CANCELLED) @
        release_events a (transfers st a))"
  by (simp add: usbi_handle_transfer_cancellation_def completion_delivers completion_silent)

theorem cancellation_outcome_witness:
  "trace (usbi_handle_transfer_cancellation 1
      (update_transfer 1 (\<lambda>t. t\<lparr>flags := {USBI_TRANSFER_SYNC_CANCELLED, USBI_TRANSFER_TIMED_OUT}\<rparr>)
         example_state)) = [] \<and>
   flags (transfers (usbi_handle_transfer_cancellation 1
      (update_transfer 1 (\<lambda>t. t\<lparr>flags := {USBI_TRANSFER_SYNC_CANCELLED, USBI_TRANSFER_TIMED_OUT}\<rparr>)
         example_state)) 1) = {USBI_TRANSFER_TIMED_OUT} \<and>
   trace (usbi_handle_transfer_cancellation 1
      (update_transfer 1 (\<lambda>t. t\<lparr>flags := {USBI_TRANSFER_TIMED_OUT}\<rparr>) example_state)) =
     [User_callback 1 LIBUSB_TRANSFER_TIMED_OUT 0] \<and>
   trace (usbi_handle_transfer_cancellation 1 example_state) =
     [User_callback 1 LIBUSB_TRANSFER_CANCELLED 0]"
  using
    cancellation_outcome [of "update_transfer 1
      (\<lambda>t. t\<lparr>flags := {USBI_TRANSFER_SYNC_CANCELLED, USBI_TRANSFER_TIMED_OUT}\<rparr>) example_state" 1]
    cancellation_outcome [of "update_transfer 1
      (\<lambda>t. t\<lparr>flags := {USBI_TRANSFER_TIMED_OUT}\<rparr>) example_state" 1]
    cancellation_outcome [of example_state 1]
  by (simp add: update_transfer_def example_state_def example_transfer_def
      callback_events_def release_events_def)

subsection \<open>The order of the scheduler\<close>

lemma sorted_wrt_deadline_le_iff:
  "sorted_wrt deadline_le ds \<longleftrightarrow>
     (sorted_wrt (\<lambda>d e. \<not> tv_after d e) (filter timerisset ds) \<and>
      ds = filter timerisset ds @ filter (\<lambda>d. \<not> timerisset d) ds)"
proof (induction ds)
  case Nil
  show ?case by simp
next
  case (Cons d ds)
  show ?case
  proof (cases "timerisset d")
    case True
    then show ?thesis using Cons by (auto simp: deadline_le_def)
  next
    case False
    let ?F = "filter timerisset ds" and ?U = "filter (\<lambda>d. \<not> timerisset d) ds"
    have all_le: "(\<forall>e\<in>set ds. deadline_le d e) \<longleftrightarrow> ?F = []"
      using False by (auto simp: deadline_le_def filter_empty_conv)
    have split: "d # ds = ?F @ d # ?U \<longleftrightarrow> ?F = [] \<and> ds = ?U"
    proof
      assume eq: "d # ds = ?F @ d # ?U"
      have "?F = []"
      proof (rule ccontr)
        assume "?F \<noteq> []"
        then obtain f fs where F: "?F = f # fs" by (cases ?F) auto
        with eq have "f = d" by simp
        moreover have "f \<in> set ?F" using F by simp
        ultimately show False using False by simp
      qed
      with eq show "?F = [] \<and> ds = ?U" by simp
    next
      assume "?F = [] \<and> ds = ?U"
      then show "d # ds = ?F @ d # ?U" by simp
    qed
    have "sorted_wrt deadline_le (d # ds) \<longleftrightarrow> ?F = [] \<and> sorted_wrt deadline_le ds"
      using all_le by auto
    also have "\<dots> \<longleftrightarrow> ?F = [] \<and> ds = ?U"
      using Cons.IH by auto
    finally show ?thesis using False split by auto
  qed
qed

lemma scheduler_ordered_iff:
  "scheduler_ordered st \<longleftrightarrow> sorted_wrt deadline_le (map (deadline_of st) (flying_transfers st))"
  unfolding scheduler_ordered_def Let_def by (rule sorted_wrt_deadline_le_iff [symmetric])

lemma set_flying_insert: "set (flying_insert mem tmo a xs) = insert a (set xs)"
  by (induction xs) (auto simp: Let_def)

lemma tv_after_trans: "tv_after c t \<Longrightarrow> \<not> tv_after c x \<Longrightarrow> \<not> tv_after t x"
  by (auto simp: tv_after_def)

lemma flying_insert_sorted:
  assumes "timerisset tmo" and "timeout (mem a) = tmo"
    and "sorted_wrt deadline_le (map (\<lambda>c. timeout (mem c)) xs)"
  shows "sorted_wrt deadline_le (map (\<lambda>c. timeout (mem c)) (flying_insert mem tmo a xs))"
  using assms(3)
proof (induction xs)
  case Nil
  show ?case by simp
next
  case (Cons cur rest)
  let ?c = "timeout (mem cur)"
  show ?case
  proof (cases "\<not> timerisset ?c \<or> tv_after ?c tmo")
    case True
    have "deadline_le tmo (timeout (mem x))" if "x \<in> set (cur # rest)" for x
    proof (cases "x = cur")
      case True
      with \<open>\<not> timerisset ?c \<or> tv_after ?c tmo\<close> assms(1) show ?thesis
        by (auto simp: deadline_le_def tv_after_def)
    next
      case False
      with that Cons.prems have "deadline_le ?c (timeout (mem x))" by auto
      with \<open>\<not> timerisset ?c \<or> tv_after ?c tmo\<close> assms(1) show ?thesis
        by (auto simp: deadline_le_def dest: tv_after_trans)
    qed
    with True Cons.prems assms(2) show ?thesis
      by (simp add: Let_def tv_after_def)
  next
    case False
    then have "deadline_le ?c tmo"
      using assms(1) by (auto simp: deadline_le_def)
    with False Cons assms(2) show ?thesis
      by (auto simp: Let_def tv_after_def set_flying_insert)
  qed
qed

lemma flying_insert_eq:
  "timerisset tmo \<Longrightarrow>
   flying_insert mem tmo a xs =
     takeWhile (\<lambda>c. \<not> later_or_unset tmo (timeout (mem c))) xs @
     a # dropWhile (\<lambda>c. \<not> later_or_unset tmo (timeout (mem c))) xs"
  by (induction xs) (auto simp: Let_def later_or_unset_def tv_after_def)

lemma sorted_wrt_map_remove1:
  "sorted_wrt P (map f xs) \<Longrightarrow> sorted_wrt P (map f (remove1 a xs))"
  by (induction xs) (auto dest: notin_set_remove1)

lemma add_to_flying_list_ordered:
  assumes "scheduler_ordered st"
  shows "scheduler_ordered (add_to_flying_list a st)"
proof -
  let ?tmo = "timeout (transfers st a)"
  have base: "sorted_wrt deadline_le (map (\<lambda>c. timeout (transfers st c)) (flying_transfers st))"
    using assms by (simp add: scheduler_ordered_iff deadline_of_def [abs_def])
  show ?thesis
  proof (cases "flying_transfers st = []")
    case True
    then show ?thesis
      by (simp add: add_to_flying_list_def scheduler_ordered_iff)
  next
    case False
    show ?thesis
    proof (cases "timerisset ?tmo")
      case True
      with False flying_insert_sorted [OF True refl base] show ?thesis
        by (simp add: add_to_flying_list_def scheduler_ordered_iff deadline_of_def [abs_def] Let_def)
    next
      case unset: False
      with False base show ?thesis
        by (simp add: add_to_flying_list_def scheduler_ordered_iff deadline_of_def [abs_def] Let_def
            sorted_wrt_append deadline_le_def)
    qed
  qed
qed

lemma update_transfer_ordered:
  assumes "a \<notin> set (flying_transfers st)"
  shows "scheduler_ordered (update_transfer a f st) = scheduler_ordered st"
proof -
  have "map (deadline_of (update_transfer a f st)) (flying_transfers st) =
        map (deadline_of st) (flying_transfers st)"
    using assms by (auto simp: deadline_of_def update_transfer_def)
  then show ?thesis
    by (simp only: scheduler_ordered_iff flying_update_transfer)
qed

lemma emit_ordered: "scheduler_ordered (emit e st) = scheduler_ordered st"
  by (simp add: scheduler_ordered_iff emit_def deadline_of_def [abs_def])

lemma libusb_submit_transfer_ordered:
  assumes "scheduler_ordered st" and "a \<notin> set (flying_transfers st)"
  shows "scheduler_ordered (snd (libusb_submit_transfer clock submit_ret a st))"
proof -
  define st1 where "st1 = update_transfer a (\<lambda>t. t\<lparr>transferred := 0\<rparr>) st"
  define rt where "rt = calculate_timeout clock (transfers st1 a)"
  define st2 where "st2 = update_transfer a (\<lambda>_. snd rt) st1"
  have o1: "scheduler_ordered st1" and f1: "a \<notin> set (flying_transfers st1)"
    using assms by (simp_all add: st1_def update_transfer_ordered)
  then have o2: "scheduler_ordered st2"
    by (simp add: st2_def update_transfer_ordered)
  have "scheduler_ordered (snd (submit_transfer submit_ret a st2))"
    using o2 by (simp add: submit_transfer_def Let_def emit_ordered add_to_flying_list_ordered)
  moreover have "libusb_submit_transfer clock submit_ret a st =
      (if fst rt < 0 then (fst rt, st2) else submit_transfer submit_ret a st2)"
    by (simp add: libusb_submit_transfer_def Let_def split_def st1_def rt_def st2_def)
  ultimately show ?thesis using o2 by simp
qed

lemma list_del_ordered: "scheduler_ordered st \<Longrightarrow> scheduler_ordered (list_del a st)"
  by (simp add: scheduler_ordered_iff list_del_def deadline_of_def [abs_def] sorted_wrt_map_remove1)

lemma scheduler_run_ordered:
  "scheduler_ordered st \<Longrightarrow> scheduler_run ops st = Some st' \<Longrightarrow> scheduler_ordered st'"
proof (induction ops st rule: scheduler_run.induct)
  case (1 st)
  then show ?case by simp
next
  case (2 a ms clock submit_ret ops st)
  let ?st1 = "update_transfer a (\<lambda>t. t\<lparr>pub_timeout := ms\<rparr>) st"
  from "2.prems" have nf: "a \<notin> set (flying_transfers st)"
    by (auto split: if_splits)
  then have "scheduler_ordered (snd (libusb_submit_transfer clock submit_ret a ?st1))"
    using "2.prems"(1) by (intro libusb_submit_transfer_ordered) (simp_all add: update_transfer_ordered)
  with 2 nf show ?case by simp
next
  case (3 a ops st)
  then show ?case by (auto simp: list_del_ordered split: if_splits)
qed

lemma usbi_io_init_ordered: "scheduler_ordered (usbi_io_init st)"
  by (simp add: scheduler_ordered_def usbi_io_init_def)

lemma s5_run: "scheduler_run s5_ops (usbi_io_init example_state) = Some s5_final"
  by (simp add: s5_ops_def s5_final_def usbi_io_init_def example_state_def example_transfer_def
      libusb_submit_transfer_def submit_transfer_def calculate_timeout_def update_transfer_def
      emit_def add_to_flying_list_def TIMESPEC_TO_TIMEVAL_def timerisset_def timerclear_def
      signed_divide_int_def Let_def fun_upd_twist)

text \<open>
  C1 (amended). After every run of submissions and removals that starts from the
  initialised engine, the in-flight list read from its head has its set deadlines in
  non-decreasing order, followed by its unset ones. A transfer whose deadline is set is
  inserted right before the first entry whose deadline is unset or strictly later, and
  appended if there is none; a transfer whose deadline is unset is appended at the tail,
  behind the unset entries that are there.
\<close>

theorem scheduler_order:
  "(scheduler_run ops (usbi_io_init st0) = Some st \<longrightarrow> scheduler_ordered st) \<and>
   (timerisset (deadline_of st' a) \<longrightarrow>
      flying_transfers (add_to_flying_list a st') =
        insert_before_first_later (transfers st') a (flying_transfers st')) \<and>
   (\<not> timerisset (deadline_of st' a) \<longrightarrow>
      flying_transfers (add_to_flying_list a st') = flying_transfers st' @ [a])"
  using scheduler_run_ordered [OF usbi_io_init_ordered, of ops st0 st]
  by (auto simp: add_to_flying_list_def Let_def deadline_of_def insert_before_first_later_def
      flying_insert_eq)

theorem scheduler_order_witness:
  "scheduler_run s5_ops (usbi_io_init example_state) = Some s5_final \<and>
   scheduler_ordered s5_final \<and> flying_transfers s5_final = [3, 1, 2] \<and>
   timerisset (deadline_of s5_final 3) \<and>
   flying_transfers (add_to_flying_list 3 (s5_final\<lparr>flying_transfers := [1, 2]\<rparr>)) = [3, 1, 2] \<and>
   \<not> timerisset (deadline_of s5_final 2) \<and>
   flying_transfers (add_to_flying_list 2 (s5_final\<lparr>flying_transfers := [1]\<rparr>)) = [1, 2]"
proof -
  have set3: "timerisset (deadline_of (s5_final\<lparr>flying_transfers := [1, 2]\<rparr>) 3)"
    and unset2: "\<not> timerisset (deadline_of (s5_final\<lparr>flying_transfers := [1]\<rparr>) 2)"
    by (simp_all add: s5_final_def deadline_of_def timerisset_def example_transfer_def timerclear_def)
  have "insert_before_first_later (transfers s5_final) 3 [1, 2] = [3, 1, 2]"
    by (simp add: s5_final_def insert_before_first_later_def later_or_unset_def timerisset_def
        tv_after_def example_transfer_def timerclear_def)
  with set3 unset2 s5_run
    scheduler_order [of s5_ops example_state s5_final "s5_final\<lparr>flying_transfers := [1, 2]\<rparr>" 3]
    scheduler_order [of s5_ops example_state s5_final "s5_final\<lparr>flying_transfers := [1]\<rparr>" 2]
  show ?thesis
    by (simp add: deadline_of_def) (simp add: s5_final_def)
qed

text \<open>
  The claim as stated fails for a transfer without deadline: with one such transfer in
  flight, a second one goes behind it, not before it.
\<close>

theorem unset_deadline_appended_counterexample:
  "\<not> timerisset (deadline_of (example_state\<lparr>flying_transfers := [1]\<rparr>) 1) \<and>
   flying_transfers (add_to_flying_list 2 (example_state\<lparr>flying_transfers := [1]\<rparr>)) = [1, 2] \<and>
   insert_before_first_later (transfers (example_state\<lparr>flying_transfers := [1]\<rparr>)) 2 [1] = [2, 1]"
  by (simp add: example_state_def example_transfer_def deadline_of_def timerisset_def
      timerclear_def add_to_flying_list_def insert_before_first_later_def later_or_unset_def)

subsection \<open>The timeout sweep\<close>

lemma handle_timeout_eq:
  "handle_timeout cr a st =
     emit (Backend_cancel_transfer a) (update_transfer a latch_timed_out st)"
  by (simp add: handle_timeout_def libusb_cancel_transfer_def Let_def latch_timed_out_def [abs_def])

lemma latch_due_none:
  "\<forall>b\<in>set xs. \<not> timeout_due now (transfers st b) \<Longrightarrow> latch_due now xs st = st"
proof -
  assume none: "\<forall>b\<in>set xs. \<not> timeout_due now (transfers st b)"
  then have "filter (\<lambda>b. timeout_due now (transfers st b)) xs = []"
    by (simp add: filter_empty_conv)
  moreover have "(\<lambda>b. if b \<in> set xs \<and> timeout_due now (transfers st b)
               then latch_timed_out (transfers st b) else transfers st b) = transfers st"
    using none by (auto simp: fun_eq_iff)
  ultimately show ?thesis by (simp add: latch_due_def)
qed

lemma latch_due_skip:
  "\<not> timeout_due now (transfers st a) \<Longrightarrow> latch_due now (a # rest) st = latch_due now rest st"
proof -
  assume nd: "\<not> timeout_due now (transfers st a)"
  have "(\<lambda>b. if b \<in> set (a # rest) \<and> timeout_due now (transfers st b)
               then latch_timed_out (transfers st b) else transfers st b) =
        (\<lambda>b. if b \<in> set rest \<and> timeout_due now (transfers st b)
               then latch_timed_out (transfers st b) else transfers st b)"
    using nd by (auto simp: fun_eq_iff)
  then show ?thesis using nd by (simp add: latch_due_def)
qed

lemma latch_due_act:
  assumes due: "timeout_due now (transfers st a)" and fresh: "a \<notin> set rest"
  shows "latch_due now (a # rest) st =
         latch_due now rest (emit (Backend_cancel_transfer a) (update_transfer a latch_timed_out st))"
proof -
  let ?st1 = "emit (Backend_cancel_transfer a) (update_transfer a latch_timed_out st)"
  have t1: "transfers ?st1 b = (if b = a then latch_timed_out (transfers st a) else transfers st b)" for b
    by (simp add: transfers_update_transfer)
  have "filter (\<lambda>b. timeout_due now (transfers ?st1 b)) rest =
        filter (\<lambda>b. timeout_due now (transfers st b)) rest"
    using fresh by (intro filter_cong) (auto simp: transfers_update_transfer)
  moreover have "(\<lambda>b. if b \<in> set (a # rest) \<and> timeout_due now (transfers st b)
               then latch_timed_out (transfers st b) else transfers st b) =
        (\<lambda>b. if b \<in> set rest \<and> timeout_due now (transfers ?st1 b)
               then latch_timed_out (transfers ?st1 b) else transfers ?st1 b)"
    using due fresh by (auto simp: fun_eq_iff transfers_update_transfer)
  ultimately show ?thesis
    using due by (simp add: latch_due_def) (simp add: emit_def update_transfer_def)
qed

lemma later_entries_not_due:
  assumes "sorted_wrt deadline_le (map (deadline_of st) (a # rest))"
    and "\<not> timerisset (deadline_of st a) \<or> tv_after (deadline_of st a) now"
  shows "\<forall>b\<in>set (a # rest). \<not> timeout_due now (transfers st b)"
proof
  fix b assume "b \<in> set (a # rest)"
  then have "b = a \<or> deadline_le (deadline_of st a) (deadline_of st b)"
    using assms(1) by auto
  with assms(2) show "\<not> timeout_due now (transfers st b)"
    by (auto simp: timeout_due_def deadline_le_def deadline_of_def tv_after_def)
qed

lemma deadline_of_handled [simp]:
  "deadline_of (emit e (update_transfer a latch_timed_out st)) = deadline_of st"
  by (auto simp: fun_eq_iff deadline_of_def transfers_update_transfer latch_timed_out_def)

lemma handle_timeouts_loop_eq:
  "sorted_wrt deadline_le (map (deadline_of st) xs) \<Longrightarrow> distinct xs \<Longrightarrow>
   handle_timeouts_loop cr now xs st = latch_due now xs st"
proof (induction xs arbitrary: st)
  case Nil
  show ?case by (simp add: latch_due_none)
next
  case (Cons a rest)
  let ?d = "deadline_of st a"
  have tail: "sorted_wrt deadline_le (map (deadline_of st) rest)" and dr: "distinct rest"
    and fresh: "a \<notin> set rest"
    using Cons.prems by auto
  consider (unset) "\<not> timerisset ?d"
    | (latched) "timerisset ?d" "USBI_TRANSFER_TIMED_OUT \<in> flags (transfers st a)"
    | (later) "timerisset ?d" "USBI_TRANSFER_TIMED_OUT \<notin> flags (transfers st a)" "tv_after ?d now"
    | (due) "timerisset ?d" "USBI_TRANSFER_TIMED_OUT \<notin> flags (transfers st a)" "\<not> tv_after ?d now"
    by blast
  then show ?case
  proof cases
    case unset
    with later_entries_not_due [OF Cons.prems(1)] show ?thesis
      by (simp add: latch_due_none deadline_of_def Let_def)
  next
    case latched
    then have "\<not> timeout_due now (transfers st a)" by (simp add: timeout_due_def)
    with latched Cons.IH [OF tail dr] show ?thesis
      by (simp add: latch_due_skip deadline_of_def Let_def)
  next
    case later
    with later_entries_not_due [OF Cons.prems(1)] show ?thesis
      by (simp add: latch_due_none deadline_of_def tv_after_def Let_def)
  next
    case due
    then have d: "timeout_due now (transfers st a)"
      by (simp add: timeout_due_def deadline_of_def)
    have "handle_timeouts_loop cr now (a # rest) st =
          handle_timeouts_loop cr now rest (handle_timeout cr a st)"
      using due by (auto simp: deadline_of_def tv_after_def Let_def)
    also have "\<dots> = latch_due now rest (handle_timeout cr a st)"
      using tail dr by (intro Cons.IH) (simp_all add: handle_timeout_eq)
    finally show ?thesis
      by (simp add: latch_due_act [OF d fresh] handle_timeout_eq)
  qed
qed

lemma sweep_timeouts_eq:
  "sorted_wrt deadline_le (map (deadline_of st) xs) \<Longrightarrow> distinct xs \<Longrightarrow>
   sweep_timeouts now xs st = latch_due now xs st"
proof (induction xs arbitrary: st)
  case Nil
  show ?case by (simp add: latch_due_none)
next
  case (Cons a rest)
  let ?d = "deadline_of st a"
  have tail: "sorted_wrt deadline_le (map (deadline_of st) rest)" and dr: "distinct rest"
    and fresh: "a \<notin> set rest"
    using Cons.prems by auto
  consider (stop) "\<not> timerisset ?d \<or> tv_after ?d now"
    | (latched) "timerisset ?d" "\<not> tv_after ?d now" "USBI_TRANSFER_TIMED_OUT \<in> flags (transfers st a)"
    | (due) "timerisset ?d" "\<not> tv_after ?d now" "USBI_TRANSFER_TIMED_OUT \<notin> flags (transfers st a)"
    by blast
  then show ?case
  proof cases
    case stop
    with later_entries_not_due [OF Cons.prems(1)] show ?thesis
      by (simp add: latch_due_none deadline_of_def)
  next
    case latched
    then have "\<not> timeout_due now (transfers st a)" by (simp add: timeout_due_def)
    with latched Cons.IH [OF tail dr] show ?thesis
      by (simp add: latch_due_skip deadline_of_def)
  next
    case due
    then have d: "timeout_due now (transfers st a)"
      by (simp add: timeout_due_def deadline_of_def)
    let ?st1 = "emit (Backend_cancel_transfer a) (update_transfer a latch_timed_out st)"
    have "sweep_timeouts now (a # rest) st = sweep_timeouts now rest ?st1"
      using due by (simp add: deadline_of_def)
    also have "\<dots> = latch_due now rest ?st1"
      using tail dr by (intro Cons.IH) simp_all
    finally show ?thesis
      by (simp add: latch_due_act [OF d fresh])
  qed
qed

lemma s5_final_ordered: "scheduler_ordered s5_final"
  using scheduler_run_ordered [OF usbi_io_init_ordered s5_run] .

text \<open>
  C2. On the in-flight list (ordered, each transfer linked once) and with the monotonic
  clock read, \<^verbatim>\<open>handle_timeouts\<close> returns 0 and does what the sweep of the spec does:
  it walks from the head, stops at the first entry whose deadline is unset or strictly
  after the current time, skips the entries that carry the latch, and for every other
  entry sets the latch \<^verbatim>\<open>USBI_TRANSFER_TIMED_OUT\<close> and asks the backend to cancel. So
  exactly the entries that are due get the latch and one cancel request each, in list
  order; the list stays as it is, no other field of any transfer changes (no status is
  delivered), and the trace gains nothing but the cancel requests (no callback).
\<close>

theorem timeout_sweep:
  assumes "scheduler_ordered st" and "distinct (flying_transfers st)"
    and "0 \<le> fst clock" and "systime = TIMESPEC_TO_TIMEVAL (snd clock)"
    and "st' = snd (handle_timeouts clock cr st)"
  shows "handle_timeouts clock cr st = (0, sweep_timeouts systime (flying_transfers st) st) \<and>
         flying_transfers st' = flying_transfers st \<and>
         pollfds st' = pollfds st \<and>
         (\<forall>a. transfers st' a =
            (if a \<in> set (flying_transfers st) \<and> timeout_due systime (transfers st a)
             then latch_timed_out (transfers st a) else transfers st a)) \<and>
         trace st' = trace st @
           map Backend_cancel_transfer
             (filter (\<lambda>a. timeout_due systime (transfers st a)) (flying_transfers st))"
proof -
  have sorted: "sorted_wrt deadline_le (map (deadline_of st) (flying_transfers st))"
    using assms(1) by (simp add: scheduler_ordered_iff)
  have loop: "handle_timeouts_loop cr systime (flying_transfers st) st =
              latch_due systime (flying_transfers st) st"
    by (rule handle_timeouts_loop_eq [OF sorted assms(2)])
  have sweep: "sweep_timeouts systime (flying_transfers st) st =
               latch_due systime (flying_transfers st) st"
    by (rule sweep_timeouts_eq [OF sorted assms(2)])
  have run: "handle_timeouts clock cr st = (0, latch_due systime (flying_transfers st) st)"
  proof (cases "flying_transfers st = []")
    case True
    then show ?thesis by (simp add: handle_timeouts_def latch_due_none)
  next
    case False
    with assms(3,4) loop show ?thesis
      by (simp add: handle_timeouts_def Let_def not_less [symmetric])
  qed
  from run sweep assms(5) show ?thesis
    by (simp add: latch_due_def)
qed

theorem timeout_sweep_witness:
  "scheduler_ordered s5_final \<and> distinct (flying_transfers s5_final) \<and>
   timeout_due \<lparr>tv_sec = 10, tv_usec = 100000\<rparr> (transfers s5_final 3) \<and>
   \<not> timeout_due \<lparr>tv_sec = 10, tv_usec = 100000\<rparr> (transfers s5_final 1) \<and>
   flags (transfers (snd (handle_timeouts (0, \<lparr>ts_sec = 10, tv_nsec = 100000000\<rparr>) (\<lambda>_. 0)
     s5_final)) 3) = {USBI_TRANSFER_TIMED_OUT} \<and>
   flags (transfers (snd (handle_timeouts (0, \<lparr>ts_sec = 10, tv_nsec = 100000000\<rparr>) (\<lambda>_. 0)
     s5_final)) 1) = {} \<and>
   trace (snd (handle_timeouts (0, \<lparr>ts_sec = 10, tv_nsec = 100000000\<rparr>) (\<lambda>_. 0) s5_final)) =
     trace s5_final @ [Backend_cancel_transfer 3]"
proof -
  have d: "distinct (flying_transfers s5_final)"
    by (simp add: s5_final_def)
  have now: "\<lparr>tv_sec = 10, tv_usec = 100000\<rparr> =
             TIMESPEC_TO_TIMEVAL (snd (0::int, \<lparr>ts_sec = 10, tv_nsec = 100000000\<rparr>))"
    by (simp add: TIMESPEC_TO_TIMEVAL_def signed_divide_int_def)
  have due: "timeout_due \<lparr>tv_sec = 10, tv_usec = 100000\<rparr> (transfers s5_final 3)"
    "\<not> timeout_due \<lparr>tv_sec = 10, tv_usec = 100000\<rparr> (transfers s5_final 1)"
    "\<not> timeout_due \<lparr>tv_sec = 10, tv_usec = 100000\<rparr> (transfers s5_final 2)"
    by (simp_all add: s5_final_def timeout_due_def example_transfer_def timerisset_def
        tv_after_def timerclear_def)
  have fl: "flying_transfers s5_final = [3, 1, 2]"
    by (simp add: s5_final_def)
  have f3: "flags (transfers s5_final 3) = {}" and f1: "flags (transfers s5_final 1) = {}"
    by (simp_all add: s5_final_def example_transfer_def)
  have c: "0 \<le> fst (0::int, \<lparr>ts_sec = 10, tv_nsec = 100000000\<rparr>)"
    by simp
  let ?st' = "snd (handle_timeouts (0, \<lparr>ts_sec = 10, tv_nsec = 100000000\<rparr>) (\<lambda>_. 0) s5_final)"
  note sweep = timeout_sweep [OF s5_final_ordered d c now refl, of "\<lambda>_. 0"]
  from sweep have mem: "transfers ?st' a =
      (if a \<in> set (flying_transfers s5_final) \<and>
          timeout_due \<lparr>tv_sec = 10, tv_usec = 100000\<rparr> (transfers s5_final a)
       then latch_timed_out (transfers s5_final a) else transfers s5_final a)" for a
    by blast
  from sweep have tr: "trace ?st' = trace s5_final @
      map Backend_cancel_transfer
        (filter (\<lambda>a. timeout_due \<lparr>tv_sec = 10, tv_usec = 100000\<rparr> (transfers s5_final a))
           (flying_transfers s5_final))"
    by blast
  from due fl f3 f1 d s5_final_ordered show ?thesis
    by (simp add: mem tr latch_timed_out_def)
qed

subsection \<open>One iteration of the event loop\<close>

lemma select_timeouts_append:
  "select_timeouts (xs @ ys) = select_timeouts xs @ select_timeouts ys"
  by (induction xs rule: select_timeouts.induct) simp_all

lemma libusb_get_next_timeout_eq:
  assumes "0 \<le> fst clock"
  shows "libusb_get_next_timeout clock tv0 st =
     (case nearest_deadline st of
        None \<Rightarrow> (0, tv0)
      | Some d \<Rightarrow> (1, time_remaining d (TIMESPEC_TO_TIMEVAL (snd clock))))"
proof (cases "flying_transfers st = []")
  case True
  then show ?thesis
    by (simp add: libusb_get_next_timeout_def nearest_deadline_def)
next
  case False
  with assms show ?thesis
    by (auto simp: libusb_get_next_timeout_def nearest_deadline_def time_remaining_def Let_def
        split: option.splits)
qed

lemma handle_timeouts_loop_selects:
  "select_timeouts (trace (handle_timeouts_loop cr now xs st)) = select_timeouts (trace st)"
  by (induction xs arbitrary: st)
    (auto simp: Let_def handle_timeout_eq select_timeouts_append)

lemma handle_timeouts_selects:
  "select_timeouts (trace (snd (handle_timeouts clock cr st))) = select_timeouts (trace st)"
  by (simp add: handle_timeouts_def Let_def handle_timeouts_loop_selects)

lemma completion_selects:
  "select_timeouts (trace (usbi_handle_transfer_completion a s st)) = select_timeouts (trace st)"
  by (auto simp: usbi_handle_transfer_completion_def Let_def libusb_free_transfer_def
      select_timeouts_append)

lemma backend_reap_selects:
  "select_timeouts (trace (backend_reap rep st)) = select_timeouts (trace st)"
  by (cases rep)
    (simp_all add: completion_selects usbi_handle_transfer_cancellation_def list_del_def
      update_transfer_def)

lemma fold_backend_reap_selects:
  "select_timeouts (trace (fold backend_reap reps st)) = select_timeouts (trace st)"
  by (induction reps arbitrary: st) (simp_all add: backend_reap_selects)

lemma backend_handle_events_selects:
  "select_timeouts (trace (snd (backend_handle_events env r w st))) = select_timeouts (trace st)"
  by (simp add: backend_handle_events_def Let_def fold_backend_reap_selects select_timeouts_append)

lemma poll_io_expired:
  assumes "0 \<le> fst (next_clock env)" and "nearest_deadline st = Some d"
    and "\<not> timerisset (time_remaining d (TIMESPEC_TO_TIMEVAL (snd (next_clock env))))"
  shows "poll_io tv env st =
     (case handle_timeouts (sweep_clock env) (cancel_ret env) st of (r, st') \<Rightarrow> (r, tv, st'))"
  using assms by (simp add: poll_io_def libusb_get_next_timeout_eq split_def Let_def)

lemma poll_io_select:
  assumes "0 \<le> fst (next_clock env)"
    and "remaining = map_option (\<lambda>d. time_remaining d (TIMESPEC_TO_TIMEVAL (snd (next_clock env))))
           (nearest_deadline st)"
    and "\<not> (case remaining of None \<Rightarrow> False | Some z \<Rightarrow> \<not> timerisset z)"
    and "sel = (case remaining of None \<Rightarrow> tv | Some z \<Rightarrow> tv_min z tv)"
    and "st1 = emit (select_call st sel) st"
  shows "poll_io tv env st =
     (if select_ret env = 0 then
        (case handle_timeouts (sweep_clock env) (cancel_ret env) st1 of
           (r, st') \<Rightarrow> (r, select_left env, st'))
      else if select_ret env = - 1 \<and> select_eintr env then (0, tv, st1)
      else if select_ret env < 0 then (select_ret env, tv, st1)
      else
        (case backend_handle_events env
                (case select_call st sel of Select n r w t \<Rightarrow> r)
                (case select_call st sel of Select n r w t \<Rightarrow> w) st1 of
           (r, st2) \<Rightarrow>
             if r < 0 then (r, tv, st2)
             else (case handle_timeouts (sweep_clock env) (cancel_ret env) st2 of
                     (r, st') \<Rightarrow> (r, tv, st'))))"
  using assms
  by (cases "nearest_deadline st")
    (simp_all add: poll_io_def libusb_get_next_timeout_eq Let_def split_def select_call_def tv_min_def)

text \<open>
  C6 (amended). With the clock read, the time that remains until the nearest deadline
  of the scheduler is its distance from now, zero when the deadline has expired. When
  it is zero, \<^verbatim>\<open>poll_io\<close> does not call \<^verbatim>\<open>select\<close>: it runs the timeout sweep and
  returns its result. Otherwise it calls \<^verbatim>\<open>select\<close> once, with the smaller of the
  caller's timeout and the remaining time (the caller's timeout when there is no
  deadline), and when \<^verbatim>\<open>select\<close> returns zero it runs the sweep and returns its result,
  with the time \<^verbatim>\<open>select\<close> left over written to the caller's timeout.
\<close>

theorem poll_io_select_timeout:
  assumes "0 \<le> fst (next_clock env)"
    and "remaining = map_option (\<lambda>d. time_remaining d (TIMESPEC_TO_TIMEVAL (snd (next_clock env))))
           (nearest_deadline st)"
    and "sel = (case remaining of None \<Rightarrow> tv | Some z \<Rightarrow> tv_min z tv)"
  shows "((case remaining of None \<Rightarrow> False | Some z \<Rightarrow> \<not> timerisset z) \<longrightarrow>
            poll_io tv env st =
              (case handle_timeouts (sweep_clock env) (cancel_ret env) st of
                 (r, st') \<Rightarrow> (r, tv, st')) \<and>
            select_timeouts (trace (snd (snd (poll_io tv env st)))) =
              select_timeouts (trace st)) \<and>
         (\<not> (case remaining of None \<Rightarrow> False | Some z \<Rightarrow> \<not> timerisset z) \<longrightarrow>
            select_timeouts (trace (snd (snd (poll_io tv env st)))) =
              select_timeouts (trace st) @ [sel] \<and>
            (select_ret env = 0 \<longrightarrow>
               poll_io tv env st =
                 (case handle_timeouts (sweep_clock env) (cancel_ret env)
                         (emit (select_call st sel) st) of
                    (r, st') \<Rightarrow> (r, select_left env, st'))))"
proof (intro conjI impI)
  assume z: "case remaining of None \<Rightarrow> False | Some z \<Rightarrow> \<not> timerisset z"
  then obtain d where d: "nearest_deadline st = Some d"
    and e: "\<not> timerisset (time_remaining d (TIMESPEC_TO_TIMEVAL (snd (next_clock env))))"
    using assms(2) by (cases "nearest_deadline st") auto
  show p: "poll_io tv env st =
      (case handle_timeouts (sweep_clock env) (cancel_ret env) st of (r, st') \<Rightarrow> (r, tv, st'))"
    by (rule poll_io_expired [OF assms(1) d e])
  show "select_timeouts (trace (snd (snd (poll_io tv env st)))) = select_timeouts (trace st)"
    using handle_timeouts_selects [of "sweep_clock env" "cancel_ret env" st]
    by (simp add: p split_def)
next
  assume nz: "\<not> (case remaining of None \<Rightarrow> False | Some z \<Rightarrow> \<not> timerisset z)"
  note p = poll_io_select [OF assms(1,2) nz assms(3) refl]
  have sc: "select_timeouts [select_call st sel] = [sel]"
    by (simp add: select_call_def Let_def)
  show "select_timeouts (trace (snd (snd (poll_io tv env st)))) = select_timeouts (trace st) @ [sel]"
    by (simp add: p split_def handle_timeouts_selects backend_handle_events_selects
        select_timeouts_append sc)
  show "poll_io tv env st =
      (case handle_timeouts (sweep_clock env) (cancel_ret env) (emit (select_call st sel) st) of
         (r, st') \<Rightarrow> (r, select_left env, st'))" if "select_ret env = 0"
    using that by (simp add: p)
qed

lemma s5_nearest: "nearest_deadline s5_final = Some \<lparr>tv_sec = 10, tv_usec = 52000\<rparr>"
  by (simp add: nearest_deadline_def s5_final_def example_transfer_def timerisset_def)

theorem poll_io_select_timeout_witness:
  "select_timeouts (trace (snd (snd (poll_io \<lparr>tv_sec = 2, tv_usec = 0\<rparr> example_env s5_final)))) = [] \<and>
   select_timeouts (trace (snd (snd (poll_io \<lparr>tv_sec = 2, tv_usec = 0\<rparr>
      (example_env\<lparr>next_clock := (0, \<lparr>ts_sec = 10, tv_nsec = 0\<rparr>)\<rparr>) s5_final)))) =
     [\<lparr>tv_sec = 0, tv_usec = 52000\<rparr>] \<and>
   fst (snd (poll_io \<lparr>tv_sec = 2, tv_usec = 0\<rparr>
      (example_env\<lparr>next_clock := (0, \<lparr>ts_sec = 10, tv_nsec = 0\<rparr>)\<rparr>) s5_final)) = timerclear"
proof -
  let ?tv = "\<lparr>tv_sec = 2, tv_usec = 0\<rparr>"
  let ?env = "example_env\<lparr>next_clock := (0, \<lparr>ts_sec = 10, tv_nsec = 0\<rparr>)\<rparr>"
  have t: "select_timeouts (trace s5_final) = []"
    by (simp add: s5_final_def)
  have c1: "0 \<le> fst (next_clock example_env)" and c2: "0 \<le> fst (next_clock ?env)"
    by (simp_all add: example_env_def)
  have r1: "Some timerclear =
      map_option (\<lambda>d. time_remaining d (TIMESPEC_TO_TIMEVAL (snd (next_clock example_env))))
        (nearest_deadline s5_final)"
    by (simp add: s5_nearest example_env_def time_remaining_def TIMESPEC_TO_TIMEVAL_def
        timercmp_ge_def signed_divide_int_def)
  have r2: "Some \<lparr>tv_sec = 0, tv_usec = 52000\<rparr> =
      map_option (\<lambda>d. time_remaining d (TIMESPEC_TO_TIMEVAL (snd (next_clock ?env))))
        (nearest_deadline s5_final)"
    by (simp add: s5_nearest example_env_def time_remaining_def TIMESPEC_TO_TIMEVAL_def
        timercmp_ge_def timersub_def signed_divide_int_def)
  have s1: "timerclear = (case Some timerclear of None \<Rightarrow> ?tv | Some z \<Rightarrow> tv_min z ?tv)"
    by (simp add: tv_min_def timerclear_def timercmp_lt_def)
  have s2: "\<lparr>tv_sec = 0, tv_usec = 52000\<rparr> =
      (case Some \<lparr>tv_sec = 0, tv_usec = 52000\<rparr> of None \<Rightarrow> ?tv | Some z \<Rightarrow> tv_min z ?tv)"
    by (simp add: tv_min_def timercmp_lt_def)
  have e: "select_ret ?env = 0" "select_left ?env = timerclear"
    by (simp_all add: example_env_def)
  have z1: "case Some timerclear of None \<Rightarrow> False | Some z \<Rightarrow> \<not> timerisset z"
    by (simp add: timerisset_def timerclear_def)
  have z2: "\<not> (case Some \<lparr>tv_sec = 0, tv_usec = 52000\<rparr> of None \<Rightarrow> False
                 | Some z \<Rightarrow> \<not> timerisset z)"
    by (simp add: timerisset_def)
  note expired = poll_io_select_timeout [OF c1 r1 s1, THEN conjunct1, THEN mp, OF z1]
  note pending = poll_io_select_timeout [OF c2 r2 s2, THEN conjunct2, THEN mp, OF z2]
  from pending e(1) have "poll_io ?tv ?env s5_final =
      (case handle_timeouts (sweep_clock ?env) (cancel_ret ?env)
              (emit (select_call s5_final \<lparr>tv_sec = 0, tv_usec = 52000\<rparr>) s5_final) of
         (r, st') \<Rightarrow> (r, select_left ?env, st'))"
    by blast
  then have "fst (snd (poll_io ?tv ?env s5_final)) = timerclear"
    by (simp add: split_def e(2))
  with expired [THEN conjunct2] pending [THEN conjunct1] t show ?thesis
    by simp
qed

text \<open>
  The claim as stated fails when the nearest deadline has expired: the timeout is not
  clamped to zero and passed to \<^verbatim>\<open>select\<close>; \<^verbatim>\<open>select\<close> is not called at all.
\<close>

theorem expired_deadline_skips_select_counterexample:
  "nearest_deadline s5_final = Some \<lparr>tv_sec = 10, tv_usec = 52000\<rparr> \<and>
   TIMESPEC_TO_TIMEVAL (snd (next_clock example_env)) = \<lparr>tv_sec = 10, tv_usec = 100000\<rparr> \<and>
   time_remaining \<lparr>tv_sec = 10, tv_usec = 52000\<rparr> \<lparr>tv_sec = 10, tv_usec = 100000\<rparr> = timerclear \<and>
   select_timeouts (trace (snd (snd (poll_io \<lparr>tv_sec = 2, tv_usec = 0\<rparr> example_env s5_final)))) = []"
proof -
  have "libusb_get_next_timeout (next_clock example_env) (stack_timeout example_env) s5_final =
        (1, timerclear)"
    by (simp add: libusb_get_next_timeout_def s5_final_def example_env_def example_transfer_def
        timerisset_def TIMESPEC_TO_TIMEVAL_def timercmp_ge_def signed_divide_int_def)
  then have "poll_io \<lparr>tv_sec = 2, tv_usec = 0\<rparr> example_env s5_final =
      (case handle_timeouts (sweep_clock example_env) (cancel_ret example_env) s5_final of
         (r, st') \<Rightarrow> (r, \<lparr>tv_sec = 2, tv_usec = 0\<rparr>, st'))"
    by (simp add: poll_io_def timerisset_def timerclear_def split_def Let_def)
  then have "select_timeouts (trace (snd (snd (poll_io \<lparr>tv_sec = 2, tv_usec = 0\<rparr> example_env s5_final)))) =
      select_timeouts (trace s5_final)"
    by (simp add: split_def handle_timeouts_selects)
  moreover have "select_timeouts (trace s5_final) = []"
    by (simp add: s5_final_def)
  ultimately show ?thesis
    by (simp add: s5_nearest example_env_def TIMESPEC_TO_TIMEVAL_def
        signed_divide_int_def time_remaining_def timercmp_ge_def)
qed

subsection \<open>Synchronous cancellation\<close>

lemma view_emit: "\<not> is_callback_for a e \<Longrightarrow> sync_view a (emit e st) = sync_view a st"
  by (simp add: sync_view_def callbacks_for_def)

lemma view_latch:
  "sync_view a (update_transfer b latch_timed_out st) = sync_view a st"
  by (simp add: sync_view_def transfers_update_transfer latch_timed_out_def)

lemma view_handle_timeouts_loop:
  "sync_view a (handle_timeouts_loop cr now xs st) = sync_view a st"
  by (induction xs arbitrary: st)
    (auto simp: Let_def handle_timeout_eq view_emit view_latch)

lemma view_handle_timeouts:
  "sync_view a (snd (handle_timeouts clock cr st)) = sync_view a st"
  by (simp add: handle_timeouts_def Let_def view_handle_timeouts_loop)

lemma flying_handle_timeouts_loop [simp]:
  "flying_transfers (handle_timeouts_loop cr now xs st) = flying_transfers st"
  by (induction xs arbitrary: st) (auto simp: Let_def handle_timeout_eq)

lemma flying_handle_timeouts [simp]:
  "flying_transfers (snd (handle_timeouts clock cr st)) = flying_transfers st"
  by (simp add: handle_timeouts_def Let_def)

lemma flying_completion [simp]:
  "flying_transfers (usbi_handle_transfer_completion a s st) = flying_transfers st"
  by (simp add: usbi_handle_transfer_completion_def Let_def libusb_free_transfer_def)

lemma flying_cancellation [simp]:
  "flying_transfers (usbi_handle_transfer_cancellation a st) = flying_transfers st"
  by (simp add: usbi_handle_transfer_cancellation_def Let_def)

lemma flying_backend_reap:
  "flying_transfers (backend_reap rep st) = remove1 (report_addr rep) (flying_transfers st)"
  by (cases rep) (simp_all add: list_del_def)

lemma flying_fold_backend_reap:
  "set (flying_transfers (fold backend_reap reps st)) \<subseteq> set (flying_transfers st) \<and>
   (distinct (flying_transfers st) \<longrightarrow> distinct (flying_transfers (fold backend_reap reps st)))"
proof (induction reps arbitrary: st)
  case Nil
  show ?case by simp
next
  case (Cons rep reps)
  have "set (remove1 (report_addr rep) (flying_transfers st)) \<subseteq> set (flying_transfers st)"
    by (rule set_remove1_subset)
  with Cons.IH [of "backend_reap rep st"] show ?case
    by (auto simp: flying_backend_reap)
qed

lemma view_completion_other:
  "b \<noteq> a \<Longrightarrow> sync_view a (usbi_handle_transfer_completion b s st) = sync_view a st"
  by (simp add: usbi_handle_transfer_completion_def Let_def libusb_free_transfer_def
      sync_view_def callbacks_for_def transfers_update_transfer)

lemma view_backend_reap_other:
  "report_addr rep \<noteq> a \<Longrightarrow> sync_view a (backend_reap rep st) = sync_view a st"
proof (cases rep)
  case (Report_completion b s n)
  assume "report_addr rep \<noteq> a"
  with Report_completion have ne: "b \<noteq> a" by simp
  have "sync_view a (update_transfer b (\<lambda>t. t\<lparr>transferred := n\<rparr>) (list_del b st)) = sync_view a st"
    using ne by (simp add: sync_view_def transfers_update_transfer list_del_def)
  with Report_completion ne show ?thesis
    by (simp add: view_completion_other)
next
  case (Report_cancellation b)
  assume "report_addr rep \<noteq> a"
  with Report_cancellation have ne: "b \<noteq> a" by simp
  have base: "sync_view a (list_del b st) = sync_view a st"
    by (simp add: sync_view_def list_del_def)
  have "sync_view a (update_transfer b f (list_del b st)) = sync_view a st" for f
    using ne by (simp add: sync_view_def transfers_update_transfer list_del_def)
  with Report_cancellation ne base show ?thesis
    by (simp add: usbi_handle_transfer_cancellation_def Let_def view_completion_other
        completion_silent)
qed

lemma view_fold_other:
  "\<forall>rep\<in>set reps. report_addr rep \<noteq> a \<Longrightarrow>
   sync_view a (fold backend_reap reps st) = sync_view a st"
  by (induction reps arbitrary: st) (simp_all add: view_backend_reap_other)

lemma view_reap_cancellation:
  "fst (sync_view a st) \<Longrightarrow>
   sync_view a (backend_reap (Report_cancellation a) st) = (False, snd (sync_view a st))"
  by (simp add: usbi_handle_transfer_cancellation_def Let_def completion_silent
      sync_view_def transfers_update_transfer list_del_def)

lemma view_reap_completion:
  "fst (sync_view a (backend_reap (Report_completion a s n) st)) = fst (sync_view a st)"
  by (simp add: usbi_handle_transfer_completion_def Let_def libusb_free_transfer_def
      sync_view_def transfers_update_transfer list_del_def)

lemma fold_reports_view:
  assumes "fst (sync_view a st)"
    and "length (filter (\<lambda>r. report_addr r = a) reps) \<le> 1"
  shows "(Report_cancellation a \<in> set reps \<longrightarrow>
            sync_view a (fold backend_reap reps st) = (False, snd (sync_view a st)) \<and>
            (distinct (flying_transfers st) \<longrightarrow>
               a \<notin> set (flying_transfers (fold backend_reap reps st)))) \<and>
         (Report_cancellation a \<notin> set reps \<longrightarrow> fst (sync_view a (fold backend_reap reps st)))"
  using assms
proof (induction reps arbitrary: st)
  case Nil
  then show ?case by simp
next
  case (Cons rep reps)
  show ?case
  proof (cases "report_addr rep = a")
    case False
    then have v: "sync_view a (backend_reap rep st) = sync_view a st"
      by (rule view_backend_reap_other)
    have ne: "rep \<noteq> Report_cancellation a"
      using False by auto
    have d: "distinct (flying_transfers st) \<Longrightarrow> distinct (flying_transfers (backend_reap rep st))"
      by (simp add: flying_backend_reap)
    from Cons.prems False have "length (filter (\<lambda>r. report_addr r = a) reps) \<le> 1"
      by simp
    with Cons.IH [of "backend_reap rep st"] Cons.prems(1) v ne d show ?thesis
      by auto
  next
    case True
    with Cons.prems(2) have "filter (\<lambda>r. report_addr r = a) reps = []"
      by simp
    then have others: "\<forall>r\<in>set reps. report_addr r \<noteq> a"
      by (simp add: filter_empty_conv)
    then have rest: "sync_view a (fold backend_reap reps s) = sync_view a s" for s
      by (rule view_fold_other)
    from others have nc: "Report_cancellation a \<notin> set reps"
      by auto
    show ?thesis
    proof (cases rep)
      case (Report_cancellation b)
      with True have rep: "rep = Report_cancellation a" by simp
      have "a \<notin> set (flying_transfers (fold backend_reap reps (backend_reap rep st)))"
        if "distinct (flying_transfers st)"
      proof -
        have "a \<notin> set (flying_transfers (backend_reap rep st))"
          using that by (simp add: rep list_del_def)
        with flying_fold_backend_reap [of reps "backend_reap rep st"] show ?thesis
          by auto
      qed
      with rep rest view_reap_cancellation [OF Cons.prems(1)] show ?thesis
        by simp
    next
      case (Report_completion b s n)
      with True have rep: "rep = Report_completion a s n" by simp
      with rest nc view_reap_completion [of a s n st] Cons.prems(1) show ?thesis
        by simp
    qed
  qed
qed

lemma libusb_poll_cases:
  "libusb_poll env st =
     (if poll_expired env st then handle_timeouts (sweep_clock env) (cancel_ret env) st
      else
        let st1 = emit (select_call st (poll_select_timeout \<lparr>tv_sec = 2, tv_usec = 0\<rparr> env st)) st
        in if select_ret env = 0 then handle_timeouts (sweep_clock env) (cancel_ret env) st1
           else if select_ret env = - 1 \<and> select_eintr env then (0, st1)
           else if select_ret env < 0 then (select_ret env, st1)
           else
             let st2 = fold backend_reap (reports env)
                         (emit (Backend_handle_events (poll_readfds st) (poll_writefds st)) st1)
             in if handle_events_ret env < 0 then (handle_events_ret env, st2)
                else handle_timeouts (sweep_clock env) (cancel_ret env) st2)"
proof -
  define g where "g = libusb_get_next_timeout (next_clock env) (stack_timeout env) st"
  have e: "poll_expired env st = (fst g \<noteq> 0 \<and> \<not> timerisset (snd g))"
    and t: "poll_select_timeout tv env st =
            (if fst g \<noteq> 0 then (if timercmp_lt (snd g) tv then snd g else tv) else tv)" for tv
    by (simp_all add: poll_expired_def poll_select_timeout_def g_def split_def Let_def)
  show ?thesis
  proof (cases "fst g \<noteq> 0 \<and> \<not> timerisset (snd g)")
    case True
    then show ?thesis
      by (simp add: e libusb_poll_def poll_io_def g_def [symmetric] split_def Let_def)
  next
    case False
    then show ?thesis
      by (cases "fst g = 0")
        (simp_all add: e t libusb_poll_def poll_io_def g_def [symmetric] split_def Let_def
          backend_handle_events_def select_call_def poll_readfds_def poll_writefds_def)
  qed
qed

lemma libusb_poll_shape:
  "\<exists>reps mid T.
     (reps = [] \<or> reps = reports env) \<and> (reaches_backend env st \<longrightarrow> reps = reports env) \<and>
     sync_view a mid = sync_view a st \<and> flying_transfers mid = flying_transfers st \<and>
     snd (libusb_poll env st) = T (fold backend_reap reps mid) \<and>
     (\<forall>s. sync_view a (T s) = sync_view a s \<and> flying_transfers (T s) = flying_transfers s)"
proof -
  define sweep where "sweep = (\<lambda>s. snd (handle_timeouts (sweep_clock env) (cancel_ret env) s))"
  define st1 where
    "st1 = emit (select_call st (poll_select_timeout \<lparr>tv_sec = 2, tv_usec = 0\<rparr> env st)) st"
  define st2 where "st2 = emit (Backend_handle_events (poll_readfds st) (poll_writefds st)) st1"
  have sweep: "\<forall>s. sync_view a (sweep s) = sync_view a s \<and>
                  flying_transfers (sweep s) = flying_transfers s"
    by (simp add: sweep_def view_handle_timeouts)
  have idt: "\<forall>s. sync_view a (id s) = sync_view a s \<and> flying_transfers (id s) = flying_transfers s"
    by simp
  have v1: "sync_view a st1 = sync_view a st" and f1: "flying_transfers st1 = flying_transfers st"
    by (simp_all add: st1_def select_call_def Let_def view_emit)
  have v2: "sync_view a st2 = sync_view a st" and f2: "flying_transfers st2 = flying_transfers st"
    by (simp_all add: st2_def v1 f1 view_emit)
  have v0: "sync_view a st = sync_view a st" and f0: "flying_transfers st = flying_transfers st"
    by simp_all
  consider (expired) "poll_expired env st"
    | (timeout) "\<not> poll_expired env st" "select_ret env = 0"
    | (fail) "\<not> poll_expired env st" "select_ret env < 0"
    | (error) "\<not> poll_expired env st" "0 < select_ret env" "handle_events_ret env < 0"
    | (events) "\<not> poll_expired env st" "0 < select_ret env" "\<not> handle_events_ret env < 0"
    by linarith
  then show ?thesis
  proof cases
    case expired
    then have "snd (libusb_poll env st) = sweep (fold backend_reap [] st)"
      by (simp add: libusb_poll_cases sweep_def)
    moreover from expired have "\<not> reaches_backend env st"
      by (simp add: reaches_backend_def)
    ultimately show ?thesis using sweep v0 f0 by blast
  next
    case timeout
    then have "snd (libusb_poll env st) = sweep (fold backend_reap [] st1)"
      by (simp add: libusb_poll_cases sweep_def st1_def Let_def)
    moreover from timeout have "\<not> reaches_backend env st"
      by (simp add: reaches_backend_def)
    ultimately show ?thesis using sweep v1 f1 by blast
  next
    case fail
    then have "snd (libusb_poll env st) = id (fold backend_reap [] st1)"
      by (simp add: libusb_poll_cases st1_def Let_def)
    moreover from fail have "\<not> reaches_backend env st"
      by (simp add: reaches_backend_def)
    ultimately show ?thesis using idt v1 f1 by blast
  next
    case error
    then have "snd (libusb_poll env st) = id (fold backend_reap (reports env) st2)"
      by (simp add: libusb_poll_cases st1_def st2_def Let_def)
    then show ?thesis using idt v2 f2 by blast
  next
    case events
    then have "snd (libusb_poll env st) = sweep (fold backend_reap (reports env) st2)"
      by (simp add: libusb_poll_cases sweep_def st1_def st2_def Let_def)
    then show ?thesis using sweep v2 f2 by blast
  qed
qed

lemma handle_timeouts_ret: "0 \<le> fst clock \<Longrightarrow> fst (handle_timeouts clock cr st) = 0"
  by (simp add: handle_timeouts_def Let_def)

lemma libusb_poll_benign:
  assumes "env_benign env"
  shows "fst (libusb_poll env st) = 0"
proof -
  have sweep: "fst (handle_timeouts (sweep_clock env) (cancel_ret env) s) = 0" for s
    using assms by (simp add: env_benign_def handle_timeouts_ret)
  have sel: "0 \<le> select_ret env \<or> select_ret env = - 1 \<and> select_eintr env"
    and ev: "\<not> handle_events_ret env < 0"
    using assms by (simp_all add: env_benign_def)
  from sel ev show ?thesis
    by (auto simp: libusb_poll_cases Let_def sweep)
qed

lemma reports_about_Cons:
  "reports_about a (env # envs) = filter (\<lambda>r. report_addr r = a) (reports env) @ reports_about a envs"
  by (simp add: reports_about_def)

lemma reports_about_append:
  "reports_about a (xs @ ys) = reports_about a xs @ reports_about a ys"
  by (simp add: reports_about_def)

lemma poll_without_report:
  assumes "filter (\<lambda>r. report_addr r = a) (reports env) = []"
  shows "sync_view a (snd (libusb_poll env st)) = sync_view a st"
proof -
  from libusb_poll_shape [of env st a] obtain reps mid T where
    reps: "reps = [] \<or> reps = reports env" and mid: "sync_view a mid = sync_view a st"
    and poll: "snd (libusb_poll env st) = T (fold backend_reap reps mid)"
    and T: "\<forall>s. sync_view a (T s) = sync_view a s \<and> flying_transfers (T s) = flying_transfers s"
    by blast
  from reps assms have "\<forall>r\<in>set reps. report_addr r \<noteq> a"
    by (auto simp: filter_empty_conv)
  then have "sync_view a (fold backend_reap reps mid) = sync_view a mid"
    by (rule view_fold_other)
  with poll T mid show ?thesis by simp
qed

lemma loop_done:
  "\<not> fst (sync_view a st) \<Longrightarrow> sync_cancel_loop a envs st = (Some 0, st)"
  by (cases envs) (simp_all add: sync_view_def)

lemma loop_without_report:
  assumes "fst (sync_view a st)" and "reports_about a envs = []"
  shows "fst (sync_cancel_loop a envs st) \<noteq> Some 0"
  using assms
proof (induction envs arbitrary: st)
  case Nil
  then show ?case by (simp add: sync_view_def)
next
  case (Cons env envs)
  from Cons.prems(2) have none: "filter (\<lambda>r. report_addr r = a) (reports env) = []"
    and rest: "reports_about a envs = []"
    by (simp_all add: reports_about_Cons)
  have flag: "fst (sync_view a (snd (libusb_poll env st)))"
    using poll_without_report [OF none] Cons.prems(1) by simp
  from Cons.IH [OF flag rest] Cons.prems(1) show ?case
    by (simp add: sync_view_def split_def Let_def)
qed

lemma loop_returns_zero:
  assumes "fst (sync_view a st)" and "distinct (flying_transfers st)"
    and "length (reports_about a envs) \<le> 1"
    and "sync_cancel_loop a envs st = (Some 0, st')"
  shows "sync_view a st' = (False, snd (sync_view a st)) \<and> a \<notin> set (flying_transfers st')"
  using assms
proof (induction envs arbitrary: st)
  case Nil
  then show ?case by (simp add: sync_view_def)
next
  case (Cons env envs)
  let ?st1 = "snd (libusb_poll env st)"
  from Cons.prems(1,4) have ret: "\<not> fst (libusb_poll env st) < 0"
    and loop: "sync_cancel_loop a envs ?st1 = (Some 0, st')"
    by (auto simp: sync_view_def split_def Let_def split: if_splits)
  from Cons.prems(3) have here: "length (filter (\<lambda>r. report_addr r = a) (reports env)) \<le> 1"
    and later: "length (reports_about a envs) \<le> 1"
    by (simp_all add: reports_about_Cons)
  from libusb_poll_shape [of env st a] obtain reps mid T where
    reps: "reps = [] \<or> reps = reports env" and mid: "sync_view a mid = sync_view a st"
    and fmid: "flying_transfers mid = flying_transfers st"
    and poll: "?st1 = T (fold backend_reap reps mid)"
    and T: "\<forall>s. sync_view a (T s) = sync_view a s \<and> flying_transfers (T s) = flying_transfers s"
    by blast
  from reps here have cnt: "length (filter (\<lambda>r. report_addr r = a) reps) \<le> 1"
    by auto
  have fm: "fst (sync_view a mid)" using mid Cons.prems(1) by simp
  have dm: "distinct (flying_transfers mid)" using fmid Cons.prems(2) by simp
  note fold = fold_reports_view [OF fm cnt]
  have d1: "distinct (flying_transfers ?st1)"
    using flying_fold_backend_reap [of reps mid] dm poll T by simp
  show ?case
  proof (cases "Report_cancellation a \<in> set reps")
    case True
    with fold dm have v: "sync_view a (fold backend_reap reps mid) = (False, snd (sync_view a mid))"
      and gone: "a \<notin> set (flying_transfers (fold backend_reap reps mid))"
      by blast+
    from v poll T mid have v1: "sync_view a ?st1 = (False, snd (sync_view a st))"
      by simp
    then have "sync_cancel_loop a envs ?st1 = (Some 0, ?st1)"
      by (intro loop_done) simp
    with loop have "st' = ?st1" by simp
    with v1 gone poll T show ?thesis by simp
  next
    case False
    with fold have flag: "fst (sync_view a ?st1)"
      using poll T by simp
    show ?thesis
    proof (cases "filter (\<lambda>r. report_addr r = a) reps = []")
      case True
      then have "\<forall>r\<in>set reps. report_addr r \<noteq> a"
        by (simp add: filter_empty_conv)
      then have "sync_view a (fold backend_reap reps mid) = sync_view a mid"
        by (rule view_fold_other)
      with poll T mid have same: "sync_view a ?st1 = sync_view a st" by simp
      from Cons.IH [OF flag d1 later loop] same show ?thesis by simp
    next
      case used: False
      with reps have "reps = reports env" by auto
      with used here Cons.prems(3) have "reports_about a envs = []"
        by (cases "filter (\<lambda>r. report_addr r = a) (reports env)") (simp_all add: reports_about_Cons)
      from loop_without_report [OF flag this] loop show ?thesis by simp
    qed
  qed
qed

lemma loop_reaches_cancellation:
  assumes "fst (sync_view a st)"
    and "\<forall>e\<in>set pre. env_benign e" and "reports_about a pre = []"
    and "env_benign env" and "reaches_backend env (run_polls pre st)"
    and "filter (\<lambda>r. report_addr r = a) (reports env) = [Report_cancellation a]"
  shows "sync_cancel_loop a (pre @ env # post) st = (Some 0, run_polls (pre @ [env]) st)"
  using assms(1,2,3,5)
proof (induction pre arbitrary: st)
  case Nil
  let ?st1 = "snd (libusb_poll env st)"
  from Nil.prems(4) have reach: "reaches_backend env st"
    by (simp add: run_polls_def)
  from libusb_poll_shape [of env st a] obtain reps mid T where
    reps: "reaches_backend env st \<longrightarrow> reps = reports env"
    and mid: "sync_view a mid = sync_view a st"
    and poll0: "?st1 = T (fold backend_reap reps mid)"
    and T: "\<forall>s. sync_view a (T s) = sync_view a s \<and> flying_transfers (T s) = flying_transfers s"
    by blast
  from reps reach poll0 have poll: "?st1 = T (fold backend_reap (reports env) mid)"
    by simp
  have "Report_cancellation a \<in> set (filter (\<lambda>r. report_addr r = a) (reports env))"
    using assms(6) by simp
  then have mem: "Report_cancellation a \<in> set (reports env)" by simp
  have fm: "fst (sync_view a mid)" using mid Nil.prems(1) by simp
  have "length (filter (\<lambda>r. report_addr r = a) (reports env)) \<le> 1"
    using assms(6) by simp
  from fold_reports_view [OF fm this] mem poll T have "\<not> fst (sync_view a ?st1)"
    by simp
  then have "sync_cancel_loop a post ?st1 = (Some 0, ?st1)"
    by (rule loop_done)
  moreover have "sync_cancel_loop a ([] @ env # post) st = sync_cancel_loop a post ?st1"
    using Nil.prems(1) libusb_poll_benign [OF assms(4), of st]
    by (simp add: sync_view_def split_def Let_def)
  moreover have "run_polls ([] @ [env]) st = ?st1"
    by (simp add: run_polls_def)
  ultimately show ?case
    by simp
next
  case (Cons e pre)
  let ?st1 = "snd (libusb_poll e st)"
  from Cons.prems(3) have none: "filter (\<lambda>r. report_addr r = a) (reports e) = []"
    and rest: "reports_about a pre = []"
    by (simp_all add: reports_about_Cons)
  have flag: "fst (sync_view a ?st1)"
    using poll_without_report [OF none] Cons.prems(1) by simp
  have ben: "\<forall>e\<in>set pre. env_benign e" and be: "env_benign e"
    using Cons.prems(2) by simp_all
  have reach: "reaches_backend env (run_polls pre ?st1)"
    using Cons.prems(4) by (simp add: run_polls_def)
  have step: "run_polls ((e # pre) @ [env]) st = run_polls (pre @ [env]) ?st1"
    by (simp add: run_polls_def)
  have "sync_cancel_loop a (pre @ env # post) ?st1 = (Some 0, run_polls (pre @ [env]) ?st1)"
    by (rule Cons.IH [OF flag ben rest reach])
  moreover have "sync_cancel_loop a ((e # pre) @ env # post) st =
      sync_cancel_loop a (pre @ env # post) ?st1"
    using Cons.prems(1) libusb_poll_benign [OF be, of st]
    by (simp add: sync_view_def split_def Let_def)
  ultimately show ?case
    by (simp only: step)
qed

text \<open>
  C3 (amended). \<^verbatim>\<open>libusb_cancel_transfer_sync\<close> first asks the backend to cancel. If the
  backend refuses, it returns the error and neither sets the flag nor runs the event
  loop. Otherwise it sets \<^verbatim>\<open>USBI_TRANSFER_SYNC_CANCELLED\<close> and runs the event loop as
  long as the flag is set. When it returns 0, the backend reporting at most one
  outcome for the transfer, the flag is clear, the transfer is no longer in flight (its
  terminal state is reached) and no user callback has been called for it. It does
  return 0, after the iteration in which the backend reports the cancellation, when no
  iteration up to there fails.
\<close>

theorem cancel_transfer_sync:
  "(cancel_rc a < 0 \<longrightarrow>
      libusb_cancel_transfer_sync cancel_rc envs a st =
        (Some (cancel_rc a), emit (Backend_cancel_transfer a) st)) \<and>
   (\<not> cancel_rc a < 0 \<longrightarrow>
      libusb_cancel_transfer_sync cancel_rc envs a st =
        sync_cancel_loop a envs (sync_cancelled a st)) \<and>
   (\<not> cancel_rc a < 0 \<and> distinct (flying_transfers st) \<and> length (reports_about a envs) \<le> 1 \<and>
    libusb_cancel_transfer_sync cancel_rc envs a st = (Some 0, st') \<longrightarrow>
      USBI_TRANSFER_SYNC_CANCELLED \<notin> flags (transfers st' a) \<and>
      a \<notin> set (flying_transfers st') \<and>
      callbacks_for a (trace st') = callbacks_for a (trace st)) \<and>
   (\<not> cancel_rc a < 0 \<and> (\<forall>e\<in>set pre. env_benign e) \<and> reports_about a pre = [] \<and>
    env_benign env \<and> reaches_backend env (run_polls pre (sync_cancelled a st)) \<and>
    filter (\<lambda>r. report_addr r = a) (reports env) = [Report_cancellation a] \<longrightarrow>
      libusb_cancel_transfer_sync cancel_rc (pre @ env # post) a st =
        (Some 0, run_polls (pre @ [env]) (sync_cancelled a st)))"
proof -
  have start: "libusb_cancel_transfer_sync cancel_rc es a st =
      sync_cancel_loop a es (sync_cancelled a st)" if "\<not> cancel_rc a < 0" for es
    using that by (simp add: libusb_cancel_transfer_sync_def sync_cancelled_def Let_def)
  have flag: "fst (sync_view a (sync_cancelled a st))"
    by (simp add: sync_view_def sync_cancelled_def transfers_update_transfer)
  have cb: "snd (sync_view a (sync_cancelled a st)) = callbacks_for a (trace st)"
    by (simp add: sync_view_def sync_cancelled_def callbacks_for_def)
  have fl: "flying_transfers (sync_cancelled a st) = flying_transfers st"
    by (simp add: sync_cancelled_def)
  have refused: "libusb_cancel_transfer_sync cancel_rc envs a st =
      (Some (cancel_rc a), emit (Backend_cancel_transfer a) st)" if "cancel_rc a < 0"
    using that by (simp add: libusb_cancel_transfer_sync_def Let_def)
  have safe: "USBI_TRANSFER_SYNC_CANCELLED \<notin> flags (transfers st' a) \<and>
      a \<notin> set (flying_transfers st') \<and>
      callbacks_for a (trace st') = callbacks_for a (trace st)"
    if "\<not> cancel_rc a < 0" "distinct (flying_transfers st)"
      "length (reports_about a envs) \<le> 1"
      "libusb_cancel_transfer_sync cancel_rc envs a st = (Some 0, st')"
  proof -
    from that(1,4) have "sync_cancel_loop a envs (sync_cancelled a st) = (Some 0, st')"
      by (simp add: start)
    from loop_returns_zero [OF flag _ that(3) this] that(2) fl cb
    have "sync_view a st' = (False, callbacks_for a (trace st))"
      and "a \<notin> set (flying_transfers st')"
      by simp_all
    then show ?thesis by (simp add: sync_view_def)
  qed
  have live: "libusb_cancel_transfer_sync cancel_rc (pre @ env # post) a st =
        (Some 0, run_polls (pre @ [env]) (sync_cancelled a st))"
    if "\<not> cancel_rc a < 0" "\<forall>e\<in>set pre. env_benign e" "reports_about a pre = []"
      "env_benign env" "reaches_backend env (run_polls pre (sync_cancelled a st))"
      "filter (\<lambda>r. report_addr r = a) (reports env) = [Report_cancellation a]"
    using loop_reaches_cancellation [OF flag that(2,3,4,5,6)] that(1)
    by (simp add: start)
  from refused start safe live show ?thesis
    by blast
qed

lemma s3_not_expired:
  "\<not> poll_expired s3_env (sync_cancelled 1 s3_state) \<and>
   \<not> poll_expired race_env (sync_cancelled 1 s3_state)"
  by (simp add: poll_expired_def libusb_get_next_timeout_def s3_env_def race_env_def example_env_def
      s3_state_def example_state_def example_transfer_def sync_cancelled_def update_transfer_def
      emit_def timerisset_def timerclear_def)

lemma s3_env_benign: "env_benign s3_env"
  by (simp add: env_benign_def s3_env_def example_env_def)

theorem cancel_transfer_sync_witness:
  "libusb_cancel_transfer_sync (\<lambda>_. 0) [s3_env] 1 s3_state =
     (Some 0, run_polls [s3_env] (sync_cancelled 1 s3_state)) \<and>
   USBI_TRANSFER_SYNC_CANCELLED \<notin> flags (transfers (run_polls [s3_env] (sync_cancelled 1 s3_state)) 1) \<and>
   1 \<notin> set (flying_transfers (run_polls [s3_env] (sync_cancelled 1 s3_state))) \<and>
   callbacks_for 1 (trace (run_polls [s3_env] (sync_cancelled 1 s3_state))) = [] \<and>
   libusb_cancel_transfer_sync (\<lambda>_. - 1) [s3_env] 1 s3_state =
     (Some (- 1), emit (Backend_cancel_transfer 1) s3_state)"
proof -
  have reach: "reaches_backend s3_env (run_polls [] (sync_cancelled 1 s3_state))"
    using s3_not_expired by (simp add: reaches_backend_def run_polls_def s3_env_def)
  have rep: "filter (\<lambda>r. report_addr r = 1) (reports s3_env) = [Report_cancellation 1]"
    and one: "length (reports_about 1 [s3_env]) \<le> 1"
    by (simp_all add: s3_env_def reports_about_def)
  have d: "distinct (flying_transfers s3_state)"
    and nocb: "callbacks_for 1 (trace s3_state) = []"
    by (simp_all add: s3_state_def example_state_def callbacks_for_def)
  note inst = cancel_transfer_sync [of "\<lambda>_. 0" 1 "[s3_env]" s3_state
      "run_polls [s3_env] (sync_cancelled 1 s3_state)" "[]" s3_env "[]"]
  have live: "\<not> (0::int) < 0 \<and> (\<forall>e\<in>set []. env_benign e) \<and> reports_about 1 [] = [] \<and>
      env_benign s3_env \<and> reaches_backend s3_env (run_polls [] (sync_cancelled 1 s3_state)) \<and>
      filter (\<lambda>r. report_addr r = 1) (reports s3_env) = [Report_cancellation 1]"
    using reach rep s3_env_benign by (simp add: reports_about_def)
  have ret: "libusb_cancel_transfer_sync (\<lambda>_. 0) [s3_env] 1 s3_state =
     (Some 0, run_polls [s3_env] (sync_cancelled 1 s3_state))"
    using inst [THEN conjunct2, THEN conjunct2, THEN conjunct2, THEN mp, OF live] by simp
  have safe: "\<not> (0::int) < 0 \<and> distinct (flying_transfers s3_state) \<and>
      length (reports_about 1 [s3_env]) \<le> 1 \<and>
      libusb_cancel_transfer_sync (\<lambda>_. 0) [s3_env] 1 s3_state =
        (Some 0, run_polls [s3_env] (sync_cancelled 1 s3_state))"
    using d one ret by simp
  from inst [THEN conjunct2, THEN conjunct2, THEN conjunct1, THEN mp, OF safe] nocb
  have "USBI_TRANSFER_SYNC_CANCELLED \<notin> flags (transfers (run_polls [s3_env] (sync_cancelled 1 s3_state)) 1) \<and>
   1 \<notin> set (flying_transfers (run_polls [s3_env] (sync_cancelled 1 s3_state))) \<and>
   callbacks_for 1 (trace (run_polls [s3_env] (sync_cancelled 1 s3_state))) = []"
    by simp
  moreover from cancel_transfer_sync [of "\<lambda>_. - 1" 1 "[s3_env]" s3_state, THEN conjunct1]
  have "libusb_cancel_transfer_sync (\<lambda>_. - 1) [s3_env] 1 s3_state =
     (Some (- 1), emit (Backend_cancel_transfer 1) s3_state)"
    by simp
  ultimately show ?thesis using ret by simp
qed

text \<open>
  The claim as stated fails in two ways. When the backend refuses the cancel request,
  the flag is never set. And when the transfer completes before the cancel request
  takes effect, the user callback is called; the loop is then still waiting for the
  flag to be cleared.
\<close>

theorem cancel_transfer_sync_counterexample:
  "fst (libusb_cancel_transfer_sync (\<lambda>_. - 1) [s3_env] 1 s3_state) = Some (- 1) \<and>
   USBI_TRANSFER_SYNC_CANCELLED \<notin>
     flags (transfers (snd (libusb_cancel_transfer_sync (\<lambda>_. - 1) [s3_env] 1 s3_state)) 1) \<and>
   fst (libusb_cancel_transfer_sync (\<lambda>_. 0) [race_env] 1 s3_state) = None \<and>
   callbacks_for 1 (trace (snd (libusb_cancel_transfer_sync (\<lambda>_. 0) [race_env] 1 s3_state))) =
     [User_callback 1 LIBUSB_TRANSFER_COMPLETED 0]"
proof -
  have refused: "libusb_cancel_transfer_sync (\<lambda>_. - 1) [s3_env] 1 s3_state =
      (Some (- 1), emit (Backend_cancel_transfer 1) s3_state)"
    by (simp add: libusb_cancel_transfer_sync_def Let_def)
  have unset: "USBI_TRANSFER_SYNC_CANCELLED \<notin>
      flags (transfers (emit (Backend_cancel_transfer 1) s3_state) 1)"
    by (simp add: s3_state_def example_state_def example_transfer_def)
  define st1 where "st1 = emit (select_call (sync_cancelled 1 s3_state)
      (poll_select_timeout \<lparr>tv_sec = 2, tv_usec = 0\<rparr> race_env (sync_cancelled 1 s3_state)))
      (sync_cancelled 1 s3_state)"
  define st2 where "st2 = backend_reap (Report_completion 1 LIBUSB_TRANSFER_COMPLETED 0)
      (emit (Backend_handle_events (poll_readfds (sync_cancelled 1 s3_state))
         (poll_writefds (sync_cancelled 1 s3_state))) st1)"
  have poll: "libusb_poll race_env (sync_cancelled 1 s3_state) =
      handle_timeouts (sweep_clock race_env) (cancel_ret race_env) st2"
    using s3_not_expired
    by (simp add: libusb_poll_cases Let_def st1_def st2_def) (simp add: race_env_def example_env_def)
  have fl: "flying_transfers st2 = []"
    by (simp add: st2_def st1_def list_del_def sync_cancelled_def s3_state_def example_state_def)
  have mem: "transfers st2 1 = example_transfer
      \<lparr>flags := {USBI_TRANSFER_SYNC_CANCELLED}, status := LIBUSB_TRANSFER_COMPLETED\<rparr>"
    by (simp add: st2_def st1_def sync_cancelled_def s3_state_def example_state_def
        example_transfer_def usbi_handle_transfer_completion_def update_transfer_def list_del_def
        emit_def Let_def libusb_free_transfer_def)
  have tr: "callbacks_for 1 (trace st2) = [User_callback 1 LIBUSB_TRANSFER_COMPLETED 0]"
    by (simp add: st2_def st1_def sync_cancelled_def s3_state_def example_state_def
        example_transfer_def usbi_handle_transfer_completion_def update_transfer_def list_del_def
        emit_def Let_def libusb_free_transfer_def callbacks_for_def select_call_def)
  have "libusb_poll race_env (sync_cancelled 1 s3_state) = (0, st2)"
    unfolding poll using fl by (simp add: handle_timeouts_def)
  moreover have "USBI_TRANSFER_SYNC_CANCELLED \<in> flags (transfers (sync_cancelled 1 s3_state) 1)"
    by (simp add: sync_cancelled_def transfers_update_transfer)
  ultimately have "libusb_cancel_transfer_sync (\<lambda>_. 0) [race_env] 1 s3_state = (None, st2)"
    using mem
    by (simp add: libusb_cancel_transfer_sync_def Let_def sync_cancelled_def [symmetric])
  with refused unset tr show ?thesis by simp
qed

subsection \<open>The device registry\<close>

lemma sint_INT_MAX: "sint INT_MAX = 2147483647"
  by (simp add: INT_MAX_def)

lemma sint_INT_MIN: "sint INT_MIN = - 2147483648"
  by (simp add: INT_MIN_def)

lemma sint_bounds: "- 2147483648 \<le> sint (x :: 32 word) \<and> sint x \<le> 2147483647"
  using sint_ge [of x] sint_lt [of x] by simp

lemma sint_eqD: "sint (x :: 32 word) = sint y \<Longrightarrow> x = y"
  by (rule signed_word_eqI)

lemma sint_increment:
  assumes "x \<noteq> INT_MAX"
  shows "sint (x + 1) = sint x + 1"
proof -
  from assms have "sint x \<noteq> sint INT_MAX" using sint_eqD [of x INT_MAX] by blast
  with sint_bounds [of x] have "sint x < 2147483647" by (simp add: sint_INT_MAX)
  with sint_bounds [of x] show ?thesis
    by (simp add: sint_word_ariths signed_take_bit_int_eq_self)
qed


lemma positive_not_INT_MIN: "1 \<le> sint x \<Longrightarrow> x \<noteq> INT_MIN"
  by (auto simp: sint_INT_MIN)

text \<open>
  \<^verbatim>\<open>libusb_ref_device\<close> adds one to the count of a live device, unless the count is
  \<^verbatim>\<open>INT_MAX\<close>: then the increment overflows.
\<close>

lemma ref_device_increments:
  assumes "devices st dev = Some d"
  shows "libusb_ref_device dev st =
     (if sint (refcnt d) = 2147483647 then Inl Signed_overflow
      else Inr (st\<lparr>devices := (devices st)(dev \<mapsto> d\<lparr>refcnt := refcnt d + 1\<rparr>)\<rparr>))"
    and "sint (refcnt d) \<noteq> 2147483647 \<Longrightarrow> sint (refcnt d + 1) = sint (refcnt d) + 1"
proof -
  have eq: "sint (refcnt d) = 2147483647 \<longleftrightarrow> refcnt d = INT_MAX"
    using sint_eqD [of "refcnt d" INT_MAX] by (auto simp: sint_INT_MAX)
  show "libusb_ref_device dev st =
     (if sint (refcnt d) = 2147483647 then Inl Signed_overflow
      else Inr (st\<lparr>devices := (devices st)(dev \<mapsto> d\<lparr>refcnt := refcnt d + 1\<rparr>)\<rparr>))"
    using assms by (simp add: libusb_ref_device_def eq)
  show "sint (refcnt d + 1) = sint (refcnt d) + 1" if "sint (refcnt d) \<noteq> 2147483647"
    using that eq by (simp add: sint_increment)
qed

lemma ref_device_overflow:
  "libusb_ref_device 1
     \<lparr>devices = [1 \<mapsto> \<lparr>refcnt = 0x7FFFFFFF, session_data = 42\<rparr>], usb_devs = [1],
      destroyed = []\<rparr> = Inl Signed_overflow"
  by (simp add: libusb_ref_device_def INT_MAX_def)












subsection \<open>The range check on the interface number\<close>

lemma int_as_size_t:
  assumes "- (2 ^ 31) \<le> (k::int)" and "k < 2 ^ 31" and "32 \<le> l"
  shows "k mod 2 ^ l = (if 0 \<le> k then k else k + 2 ^ l)"
proof -
  have "(2::int) ^ 32 \<le> 2 ^ l"
    using assms(3) by (intro power_increasing) simp_all
  then have big: "(2::int) ^ 31 < 2 ^ l" by simp
  show ?thesis
  proof (cases "0 \<le> k")
    case True
    with assms(2) big show ?thesis by (simp add: mod_pos_pos_trivial)
  next
    case False
    have "k mod 2 ^ l = (k + 2 ^ l) mod 2 ^ l" by simp
    also have "\<dots> = k + 2 ^ l"
      using False assms(1) big by (intro mod_pos_pos_trivial) simp_all
    finally show ?thesis using False by simp
  qed
qed


lemma long_width_ge_32: 
  assumes "LENGTH('w::len) = 32 \<or> LENGTH('w) = 64"
  shows "32 \<le> LENGTH('w)" using assms by linarith

lemma long_width_bytes:
  assumes "LENGTH('w::len) = 32 \<or> LENGTH('w) = 64"
  shows "LENGTH('w) div 8 * 8 = LENGTH('w)"
      using assms by presburger

lemma sizeof_bits_eq:
  assumes "LENGTH('w::len) div 8 * 8 = LENGTH('w)"
  shows "(word_of_nat (LENGTH('w) div 8) * 8 :: 'w word) = word_of_nat LENGTH('w)"
proof -
  have "(word_of_nat (LENGTH('w) div 8 * 8) :: 'w word) = word_of_nat LENGTH('w)"
    using assms by simp
  then show ?thesis by (simp only: of_nat_mult of_nat_numeral)
qed

lemma uint_width: "uint (word_of_nat LENGTH('w) :: 'w::len word) = int LENGTH('w)"
proof -
  have "unat (word_of_nat LENGTH('w) :: 'w word) = LENGTH('w) mod 2 ^ LENGTH('w)"
    by (rule unat_of_nat)
  also have "\<dots> = LENGTH('w)"
    by (rule mod_less) (rule less_exp)
  finally show ?thesis
    by (metis uint_nat)
qed

lemma uint_scast_int:
  assumes "32 \<le> LENGTH('w::len)"
  shows "uint (scast (n :: 32 word) :: 'w word) = (if 0 \<le> sint n then sint n else sint n + 2 ^ LENGTH('w))"
proof -
  have range: "- (2 ^ 31) \<le> sint n" "sint n < 2 ^ 31"
    using sint_range_size [of n] by (simp_all add: word_size)
  have "uint (scast n :: 'w word) = sint n mod 2 ^ LENGTH('w)"
    by (simp only: scast_eq uint_word_of_int)
  then show ?thesis
    by (simp only: int_as_size_t [OF range assms])
qed

lemma negative_int_is_large:
  assumes len: "32 \<le> LENGTH('w::len)" and k: "- (2 ^ 31) \<le> (k::int)"
  shows "int LENGTH('w) \<le> k + 2 ^ LENGTH('w)"
proof -
  have half: "(2::int) ^ 31 \<le> 2 ^ (LENGTH('w) - 1)"
    using len by (intro power_increasing) simp_all
  have "int LENGTH('w) \<le> 2 ^ (LENGTH('w) - 1)"
  proof -
    have "LENGTH('w) - 1 < 2 ^ (LENGTH('w) - 1)" by (rule less_exp)
    then have "LENGTH('w) \<le> 2 ^ (LENGTH('w) - 1)" by linarith
    then have "int LENGTH('w) \<le> int (2 ^ (LENGTH('w) - 1))" by (simp only: of_nat_le_iff)
    then show ?thesis by simp
  qed
  moreover have "(2::int) ^ LENGTH('w) = 2 * 2 ^ (LENGTH('w) - 1)"
    using len by (simp flip: power_Suc)
  ultimately show ?thesis using k half by linarith
qed

lemma interface_beyond_bitmap_iff:
  assumes "LENGTH('w::len) = 32 \<or> LENGTH('w) = 64"
  shows "interface_beyond_bitmap (dev :: 'w libusb_device_handle) n \<longleftrightarrow>
         \<not> (0 \<le> sint n \<and> sint n < int LENGTH('w))"
proof -
  have range: "- (2 ^ 31) \<le> sint n" "sint n < 2 ^ 31"
    using sint_range_size [of n] by (simp_all add: word_size)
  have len: "32 \<le> LENGTH('w)" by (rule long_width_ge_32 [OF assms])
  note width = sizeof_bits_eq [OF long_width_bytes [OF assms]]
  note far = negative_int_is_large [OF len range(1)]
  show ?thesis
    unfolding interface_beyond_bitmap_def width word_le_def uint_width uint_scast_int [OF len]
    using range far by auto
qed


text \<open>
  C10. With a bitmap of 32 or 64 bits (the width of \<^verbatim>\<open>unsigned long\<close> and of
  \<^verbatim>\<open>size_t\<close>), \<^verbatim>\<open>libusb_claim_interface\<close>, \<^verbatim>\<open>libusb_release_interface\<close> and
  \<^verbatim>\<open>libusb_set_interface_alt_setting\<close> return \<^verbatim>\<open>LIBUSB_ERROR_INVALID_PARAM\<close> with the
  handle as it was and no call into the backend exactly when the interface number is
  not in \<open>0 \<le> n < width\<close>; a negative number, converted to \<^verbatim>\<open>size_t\<close>, is beyond
  every width. The result for a number out of range is the same for every bitmap.
\<close>

theorem interface_number_range:
  assumes "LENGTH('w::len) = 32 \<or> LENGTH('w) = 64"
  shows "(\<not> (0 \<le> sint n \<and> sint n < int LENGTH('w)) \<longrightarrow>
            libusb_claim_interface r (dev :: 'w libusb_device_handle) n =
              Inr (LIBUSB_ERROR_INVALID_PARAM, dev, []) \<and>
            libusb_release_interface r dev n = Inr (LIBUSB_ERROR_INVALID_PARAM, dev, []) \<and>
            libusb_set_interface_alt_setting r dev n alt =
              Inr (LIBUSB_ERROR_INVALID_PARAM, dev, [])) \<and>
         (0 \<le> sint n \<and> sint n < int LENGTH('w) \<longrightarrow>
            (\<forall>dev'. libusb_claim_interface r dev n \<noteq> Inr (LIBUSB_ERROR_INVALID_PARAM, dev', []) \<and>
                   libusb_release_interface r dev n \<noteq> Inr (LIBUSB_ERROR_INVALID_PARAM, dev', []) \<and>
                   libusb_set_interface_alt_setting r dev n alt \<noteq>
                     Inr (LIBUSB_ERROR_INVALID_PARAM, dev', [])))"
proof (intro conjI impI allI)
  assume out: "\<not> (0 \<le> sint n \<and> sint n < int LENGTH('w))"
  then have b: "interface_beyond_bitmap dev n"
    using interface_beyond_bitmap_iff [OF assms, of dev n] by blast
  show "libusb_claim_interface r dev n = Inr (LIBUSB_ERROR_INVALID_PARAM, dev, [])"
    and "libusb_release_interface r dev n = Inr (LIBUSB_ERROR_INVALID_PARAM, dev, [])"
    and "libusb_set_interface_alt_setting r dev n alt = Inr (LIBUSB_ERROR_INVALID_PARAM, dev, [])"
    using b by (simp_all add: libusb_claim_interface_def libusb_release_interface_def
        libusb_set_interface_alt_setting_def)
next
  fix dev' :: "'w libusb_device_handle"
  assume "0 \<le> sint n \<and> sint n < int LENGTH('w)"
  then have b: "\<not> interface_beyond_bitmap dev n"
    using interface_beyond_bitmap_iff [OF assms, of dev n] by blast
  show "libusb_claim_interface r dev n \<noteq> Inr (LIBUSB_ERROR_INVALID_PARAM, dev', [])"
    using b by (auto simp: libusb_claim_interface_def LIBUSB_ERROR_INVALID_PARAM_def Let_def
        split: sum.splits)
  show "libusb_release_interface r dev n \<noteq> Inr (LIBUSB_ERROR_INVALID_PARAM, dev', [])"
    using b by (auto simp: libusb_release_interface_def LIBUSB_ERROR_INVALID_PARAM_def
        LIBUSB_ERROR_NOT_FOUND_def Let_def split: sum.splits)
  show "libusb_set_interface_alt_setting r dev n alt \<noteq> Inr (LIBUSB_ERROR_INVALID_PARAM, dev', [])"
    using b by (auto simp: libusb_set_interface_alt_setting_def LIBUSB_ERROR_INVALID_PARAM_def
        LIBUSB_ERROR_NOT_FOUND_def Let_def split: sum.splits)
qed


theorem interface_number_range_witness:
  "libusb_claim_interface 0 \<lparr>claimed_interfaces = (0 :: 64 word)\<rparr> (- 1) =
     Inr (LIBUSB_ERROR_INVALID_PARAM, \<lparr>claimed_interfaces = 0\<rparr>, []) \<and>
   libusb_release_interface 0 \<lparr>claimed_interfaces = (0 :: 64 word)\<rparr> 64 =
     Inr (LIBUSB_ERROR_INVALID_PARAM, \<lparr>claimed_interfaces = 0\<rparr>, []) \<and>
   libusb_set_interface_alt_setting 0 \<lparr>claimed_interfaces = (0 :: 64 word)\<rparr> (- 1) 0 =
     Inr (LIBUSB_ERROR_INVALID_PARAM, \<lparr>claimed_interfaces = 0\<rparr>, []) \<and>
   libusb_claim_interface 0 \<lparr>claimed_interfaces = (0 :: 64 word)\<rparr> 5 \<noteq>
     Inr (LIBUSB_ERROR_INVALID_PARAM, \<lparr>claimed_interfaces = 0\<rparr>, [])"
proof -
  have w: "LENGTH(64) = 32 \<or> LENGTH(64) = 64" by simp
  have neg: "\<not> (0 \<le> sint (- 1 :: 32 word) \<and> sint (- 1 :: 32 word) < int LENGTH(64))"
    and big: "\<not> (0 \<le> sint (64 :: 32 word) \<and> sint (64 :: 32 word) < int LENGTH(64))"
    and ok: "0 \<le> sint (5 :: 32 word) \<and> sint (5 :: 32 word) < int LENGTH(64)"
    by simp_all
  from interface_number_range [OF w, of "- 1" 0 "\<lparr>claimed_interfaces = 0\<rparr>" 0] neg
    interface_number_range [OF w, of 64 0 "\<lparr>claimed_interfaces = 0\<rparr>" 0] big
    interface_number_range [OF w, of 5 0 "\<lparr>claimed_interfaces = 0\<rparr>" 0] ok
  show ?thesis by blast
qed

subsection \<open>Claiming and releasing interfaces\<close>

lemma scast_int_bit:
  assumes "b < 32" and "32 \<le> LENGTH('w::len)" and "b < 31 \<or> LENGTH('w) = 32"
  shows "(scast (push_bit b 1 :: 32 word) :: 'w word) = push_bit b 1"
  using assms by (intro bit_word_eqI) (auto simp: bit_simps)

lemma scast_int_not_bit:
  assumes "b < 32" and "32 \<le> LENGTH('w::len)" and "b < 31 \<or> LENGTH('w) = 32"
  shows "(scast (NOT (push_bit b 1 :: 32 word)) :: 'w word) = NOT (push_bit b 1)"
  using assms by (intro bit_word_eqI) (auto simp: bit_simps)

lemma claim_release_within_int:
  assumes "LENGTH('w::len) = 32 \<or> LENGTH('w) = 64"
    and "0 \<le> sint n" and "sint n < 32" and "sint n < 31 \<or> LENGTH('w) = 32"
  shows "libusb_claim_interface r (dev :: 'w libusb_device_handle) n =
           (if bit (claimed_interfaces dev) (nat (sint n)) then Inr (0, dev, [])
            else if r = 0 then
              Inr (0, dev\<lparr>claimed_interfaces := set_bit (nat (sint n)) (claimed_interfaces dev)\<rparr>,
                   [Backend_claim_interface n])
            else Inr (r, dev, [Backend_claim_interface n]))"
    and "libusb_release_interface r dev n =
           (if \<not> bit (claimed_interfaces dev) (nat (sint n))
            then Inr (LIBUSB_ERROR_NOT_FOUND, dev, [])
            else if r = 0 then
              Inr (0, dev\<lparr>claimed_interfaces := unset_bit (nat (sint n)) (claimed_interfaces dev)\<rparr>,
                   [Backend_release_interface n])
            else Inr (r, dev, [Backend_release_interface n]))"
proof -
  define b where "b = nat (sint n)"
  have b: "b < 32" "b < 31 \<or> LENGTH('w) = 32"
    using assms(2,3,4) by (auto simp: b_def)
  have len: "32 \<le> LENGTH('w)" by (rule long_width_ge_32 [OF assms(1)])
  have inside: "\<not> interface_beyond_bitmap dev n"
    using interface_beyond_bitmap_iff [OF assms(1), of dev n] assms(2,3) len by auto
  have shl: "int_shl_1 n = Inr (push_bit b 1)"
    using assms(2,3) by (simp add: int_shl_1_def b_def)
  note m = scast_int_bit [OF b(1) len b(2), unfolded push_bit_of_1]
    scast_int_not_bit [OF b(1) len b(2), unfolded push_bit_of_1]
  show "libusb_claim_interface r dev n =
           (if bit (claimed_interfaces dev) (nat (sint n)) then Inr (0, dev, [])
            else if r = 0 then
              Inr (0, dev\<lparr>claimed_interfaces := set_bit (nat (sint n)) (claimed_interfaces dev)\<rparr>,
                   [Backend_claim_interface n])
            else Inr (r, dev, [Backend_claim_interface n]))"
    unfolding b_def [symmetric]
    by (simp add: libusb_claim_interface_def inside shl m Let_def set_bit_def
        bit_iff_and_push_bit_not_eq_0 push_bit_of_1)
  show "libusb_release_interface r dev n =
           (if \<not> bit (claimed_interfaces dev) (nat (sint n))
            then Inr (LIBUSB_ERROR_NOT_FOUND, dev, [])
            else if r = 0 then
              Inr (0, dev\<lparr>claimed_interfaces := unset_bit (nat (sint n)) (claimed_interfaces dev)\<rparr>,
                   [Backend_release_interface n])
            else Inr (r, dev, [Backend_release_interface n]))"
    unfolding b_def [symmetric]
    by (simp add: libusb_release_interface_def inside shl m Let_def unset_bit_def
        bit_iff_and_push_bit_not_eq_0 push_bit_of_1)
qed

text \<open>
  C7. The claim says that for every interface number within the bitmap
  \<^verbatim>\<open>libusb_claim_interface\<close> and \<^verbatim>\<open>libusb_release_interface\<close> test, set and clear the bit
  of that number. The lemma above shows this for the numbers below 31 (and for 31 on
  a bitmap of 32 bits). The masks are computed as \<^verbatim>\<open>1 << interface_number\<close> in
  \<^verbatim>\<open>int\<close>, though: for a bitmap of 64 bits the range check lets 32 pass, and
  the shift by 32 is undefined; and claiming 31 sets the bits 31 to 63, since the mask
  \<^verbatim>\<open>INT_MIN\<close> is sign-extended.
\<close>

theorem claim_interface_beyond_int_width:
  "\<not> interface_beyond_bitmap \<lparr>claimed_interfaces = (0 :: 64 word)\<rparr> 32 \<and>
   libusb_claim_interface 0 \<lparr>claimed_interfaces = (0 :: 64 word)\<rparr> 32 = Inl Undefined_shift \<and>
   libusb_claim_interface 0 \<lparr>claimed_interfaces = (0 :: 64 word)\<rparr> 31 =
     Inr (0, \<lparr>claimed_interfaces = 0xFFFFFFFF80000000\<rparr>, [Backend_claim_interface 31])"
  by (simp add: libusb_claim_interface_def interface_beyond_bitmap_def int_shl_1_def)

end
